theory Spec2Isabelle
  imports Complex_Main "HOL-Library.Log_Nat"
begin

section \<open>JavaScript numbers\<close>

text \<open>
  A JavaScript number is an IEEE 754 binary64 value. A finite value is carried as the
  rational it denotes; every arithmetic operation computes the exact rational result and
  rounds it to the nearest binary64 value, ties to the even significand
  (\<open>round_double\<close>), overflowing to an infinity. The two zeros are identified: none
  of the functions below divides by a computed zero (each divisor is the literal 100 or is
  guarded by a comparison with zero), and \<open>===\<close>, \<open>\<ge>\<close> and \<open><\<close> do not tell them apart.
\<close>

datatype jsnum = NaN | PInf | NInf | Fin rat

text \<open>\<open>ilog2 q\<close> is the binade of a positive \<open>q\<close>: \<open>2 powi ilog2 q \<le> q < 2 powi (ilog2 q + 1)\<close>.\<close>

definition ilog2 :: "rat \<Rightarrow> int" where
  "ilog2 q = (if 1 \<le> q then bitlen \<lfloor>q\<rfloor> - 1
              else (let k = - bitlen \<lfloor>1 / q\<rfloor> in if 2 powi (k + 1) \<le> q then k + 1 else k))"

text \<open>Nearest integer, ties to even.\<close>

definition rne :: "rat \<Rightarrow> int" where
  "rne x = (let f = \<lfloor>x\<rfloor>; d = x - of_int f in
            if d < 1 / 2 then f else if 1 / 2 < d then f + 1
            else if even f then f else f + 1)"

text \<open>
  The exponent of the unit in the last place: 53 significant bits in the normal range,
  the fixed exponent \<open>-1074\<close> in the subnormal range.
\<close>

definition ulp_exp :: "rat \<Rightarrow> int" where
  "ulp_exp q = max (ilog2 \<bar>q\<bar>) (- 1022) - 52"

definition huge :: rat where
  "huge = 2 powi 1024"

text \<open>The largest number, \<open>Number.MAX_VALUE\<close>.\<close>

definition max_double :: rat where
  "max_double = (2 ^ 53 - 1) * 2 powi 971"

definition round_double :: "rat \<Rightarrow> jsnum" where
  "round_double q = (if q = 0 then Fin 0 else
     (let u = 2 powi (ulp_exp q); r = of_int (rne (\<bar>q\<bar> / u)) * u
      in if huge \<le> r then (if q < 0 then NInf else PInf)
         else Fin (if q < 0 then - r else r)))"

text \<open>The finite values that are binary64 numbers.\<close>

definition is_double :: "rat \<Rightarrow> bool" where
  "is_double r = (round_double r = Fin r)"

definition dyadic53 :: "rat \<Rightarrow> bool" where
  "dyadic53 r = (\<exists>m j. r = of_int m * 2 powi j \<and> \<bar>m\<bar> < 2 ^ 53 \<and> - 1074 \<le> j \<and> \<bar>r\<bar> < huge)"

text \<open>The values an arithmetic operation returns: \<open>NaN\<close>, the infinities and the binary64 numbers.\<close>

fun es_double :: "jsnum \<Rightarrow> bool" where
  "es_double (Fin q) = dyadic53 q"
| "es_double x = True"

fun jneg :: "jsnum \<Rightarrow> jsnum" where
  "jneg (Fin a) = Fin (- a)"
| "jneg PInf = NInf"
| "jneg NInf = PInf"
| "jneg NaN = NaN"

text \<open>\<open>x + y\<close>\<close>

fun jadd :: "jsnum \<Rightarrow> jsnum \<Rightarrow> jsnum" where
  "jadd (Fin a) (Fin b) = round_double (a + b)"
| "jadd NaN y = NaN"
| "jadd x NaN = NaN"
| "jadd PInf NInf = NaN"
| "jadd NInf PInf = NaN"
| "jadd PInf y = PInf"
| "jadd NInf y = NInf"
| "jadd (Fin a) y = y"

text \<open>\<open>x * y\<close>\<close>

fun jmul :: "jsnum \<Rightarrow> jsnum \<Rightarrow> jsnum" where
  "jmul (Fin a) (Fin b) = round_double (a * b)"
| "jmul NaN y = NaN"
| "jmul x NaN = NaN"
| "jmul (Fin a) y = (if a = 0 then NaN else if 0 < a then y else jneg y)"
| "jmul x (Fin b) = (if b = 0 then NaN else if 0 < b then x else jneg x)"
| "jmul PInf y = y"
| "jmul NInf y = jneg y"

text \<open>\<open>x / y\<close>; a zero divisor is taken as \<open>+0\<close>.\<close>

fun jdiv :: "jsnum \<Rightarrow> jsnum \<Rightarrow> jsnum" where
  "jdiv (Fin a) (Fin b) =
     (if b = 0 then (if a = 0 then NaN else if 0 < a then PInf else NInf)
      else round_double (a / b))"
| "jdiv NaN y = NaN"
| "jdiv x NaN = NaN"
| "jdiv (Fin a) y = Fin 0"
| "jdiv x (Fin b) = (if 0 \<le> b then x else jneg x)"
| "jdiv x y = NaN"

text \<open>\<open>x < y\<close>, \<open>x === y\<close>, \<open>x <= y\<close>, \<open>x > y\<close>, \<open>x >= y\<close>: every comparison with \<open>NaN\<close> is false.\<close>

fun jlt :: "jsnum \<Rightarrow> jsnum \<Rightarrow> bool" where
  "jlt (Fin a) (Fin b) = (a < b)"
| "jlt (Fin a) PInf = True"
| "jlt NInf (Fin b) = True"
| "jlt NInf PInf = True"
| "jlt x y = False"

definition jeq :: "jsnum \<Rightarrow> jsnum \<Rightarrow> bool" where
  "jeq x y = (x \<noteq> NaN \<and> x = y)"

definition jle :: "jsnum \<Rightarrow> jsnum \<Rightarrow> bool" where
  "jle x y = (jlt x y \<or> jeq x y)"

definition jgt :: "jsnum \<Rightarrow> jsnum \<Rightarrow> bool" where
  "jgt x y = jlt y x"

definition jge :: "jsnum \<Rightarrow> jsnum \<Rightarrow> bool" where
  "jge x y = jle y x"

text \<open>\<open>Math.round\<close>: the integer nearest to \<open>x\<close>, a tie going towards \<open>+\<infinity>\<close>.\<close>

fun math_round :: "jsnum \<Rightarrow> jsnum" where
  "math_round (Fin q) = Fin (of_int \<lfloor>q + 1 / 2\<rfloor>)"
| "math_round x = x"

text \<open>The number an array length or a counter holds.\<close>

definition of_count :: "nat \<Rightarrow> jsnum" where
  "of_count n = Fin (of_nat n)"

section \<open>JavaScript values and \<open>parseFloat\<close>\<close>

text \<open>
  The primitive values a column of a database row or a field of a request body holds.
  A string is its sequence of code units; the model has the code units below 256.
\<close>

datatype jsval = JNull | JUndefined | JBool bool | JNum jsnum | JStr string

text \<open>A value that is a number, \<open>null\<close> or \<open>undefined\<close>: the type of a final grade.\<close>

datatype numopt = Null | Undefined | Num jsnum

definition isDigit :: "char \<Rightarrow> bool" where
  "isDigit c = (48 \<le> (of_char c :: nat) \<and> (of_char c :: nat) \<le> 57)"

definition isWhite :: "char \<Rightarrow> bool" where
  "isWhite c = ((of_char c :: nat) \<in> {9, 10, 11, 12, 13, 32, 160})"

definition digitsVal :: "string \<Rightarrow> nat" where
  "digitsVal ds = foldl (\<lambda>n c. 10 * n + (of_char c - 48)) 0 ds"

text \<open>The value of an optional \<open>ExponentPart\<close> at the head of the rest of the input.\<close>

definition exponentPart :: "string \<Rightarrow> int" where
  "exponentPart r =
     (if r \<noteq> [] \<and> (hd r = CHR ''e'' \<or> hd r = CHR ''E'') then
        (let s = tl r;
             neg = (s \<noteq> [] \<and> hd s = CHR ''-'');
             t = (if s \<noteq> [] \<and> (hd s = CHR ''-'' \<or> hd s = CHR ''+'') then tl s else s);
             ds = takeWhile isDigit t
         in if ds = [] then 0 else if neg then - int (digitsVal ds) else int (digitsVal ds))
      else 0)"

text \<open>
  \<open>parseFloat\<close> of a string: leading white space is dropped, the longest prefix that is
  a \<open>StrDecimalLiteral\<close> is read, and its mathematical value is rounded to a number;
  \<open>NaN\<close> when no prefix is one.
\<close>

definition parseFloatStr :: "string \<Rightarrow> jsnum" where
  "parseFloatStr s =
     (let t = dropWhile isWhite s;
          neg = (t \<noteq> [] \<and> hd t = CHR ''-'');
          u = (if t \<noteq> [] \<and> (hd t = CHR ''-'' \<or> hd t = CHR ''+'') then tl t else t)
      in if take 8 u = ''Infinity'' then (if neg then NInf else PInf)
         else
           (let ip = takeWhile isDigit u;
                r1 = dropWhile isDigit u;
                hasDot = (r1 \<noteq> [] \<and> hd r1 = CHR ''.'');
                fp = (if hasDot then takeWhile isDigit (tl r1) else []);
                r2 = (if hasDot then dropWhile isDigit (tl r1) else r1)
            in if ip = [] \<and> fp = [] then NaN
               else
                 (let mv = of_nat (digitsVal (ip @ fp)) * 10 powi (exponentPart r2 - int (length fp))
                  in round_double (if neg then - mv else mv))))"

text \<open>
  \<open>parseFloat\<close> converts its argument to a string first. A number prints as a string
  that reads back as the same number; \<open>null\<close>, \<open>undefined\<close>, \<open>true\<close> and \<open>false\<close> print as
  words that start no decimal literal.
\<close>

fun parseFloat :: "jsval \<Rightarrow> jsnum" where
  "parseFloat (JNum x) = x"
| "parseFloat (JStr s) = parseFloatStr s"
| "parseFloat v = NaN"

text \<open>\<open>!v\<close>\<close>

fun falsy :: "jsval \<Rightarrow> bool" where
  "falsy JNull = True"
| "falsy JUndefined = True"
| "falsy (JBool b) = (\<not> b)"
| "falsy (JNum x) = (x = NaN \<or> x = Fin 0)"
| "falsy (JStr s) = (s = [])"

text \<open>
  The conversions of a number to a string belong to the host: \<open>numberToString\<close> is the
  conversion a template literal applies, \<open>toFixed\<close> is \<open>Number.prototype.toFixed\<close>.
\<close>

record host =
  numberToString :: "jsnum \<Rightarrow> string"
  toFixed :: "jsnum \<Rightarrow> nat \<Rightarrow> string"

fun toStr :: "host \<Rightarrow> jsval \<Rightarrow> string" where
  "toStr h JNull = ''null''"
| "toStr h JUndefined = ''undefined''"
| "toStr h (JBool b) = (if b then ''true'' else ''false'')"
| "toStr h (JNum x) = numberToString h x"
| "toStr h (JStr s) = s"

text \<open>\<open>s.includes(t)\<close>\<close>

fun includes_str :: "string \<Rightarrow> string \<Rightarrow> bool" where
  "includes_str [] t = (t = [])"
| "includes_str (c # s) t = (take (length t) (c # s) = t \<or> includes_str s t)"


text \<open>The accented letters of the message texts, as code units.\<close>

abbreviation (input) a_acute :: char where "a_acute \<equiv> CHR 0xE1"
abbreviation (input) e_acute :: char where "e_acute \<equiv> CHR 0xE9"
abbreviation (input) i_acute :: char where "i_acute \<equiv> CHR 0xED"
abbreviation (input) o_acute :: char where "o_acute \<equiv> CHR 0xF3"
abbreviation (input) u_acute :: char where "u_acute \<equiv> CHR 0xFA"
abbreviation (input) n_tilde :: char where "n_tilde \<equiv> CHR 0xF1"

section \<open>The grade service (\<open>calificacion.service.js\<close>)\<close>

text \<open>
  Rows and objects carry the fields the computations read; identifiers, names, dates and
  the other fields that are only copied into the report are left out.
\<close>

record calificacion =
  nota :: jsval
  ponderacion :: jsval

record estado =
  codigo :: string
  descripcion :: string
  aprobado :: bool
  color :: string

record curso =
  creditos :: jsnum

text \<open>\<open>ToNumber\<close> of a final grade.\<close>

fun toNum :: "numopt \<Rightarrow> jsnum" where
  "toNum (Num x) = x"
| "toNum Null = Fin 0"
| "toNum Undefined = NaN"

text \<open>\<open>Math.round(x * 100) / 100\<close>\<close>

definition redondear2 :: "jsnum \<Rightarrow> jsnum" where
  "redondear2 x = jdiv (math_round (jmul x (Fin 100))) (Fin 100)"

text \<open>\<open>cal.nota !== null && cal.nota !== undefined\<close>\<close>

definition tieneNota :: "calificacion \<Rightarrow> bool" where
  "tieneNota cal = (nota cal \<noteq> JNull \<and> nota cal \<noteq> JUndefined)"

text \<open>One turn of the \<open>forEach\<close> over the pair \<open>(sumaPonderada, sumaPonderaciones)\<close>.\<close>

definition acumular :: "jsnum \<times> jsnum \<Rightarrow> calificacion \<Rightarrow> jsnum \<times> jsnum" where
  "acumular acc cal =
     (jadd (fst acc) (jdiv (jmul (parseFloat (nota cal)) (parseFloat (ponderacion cal))) (Fin 100)),
      jadd (snd acc) (parseFloat (ponderacion cal)))"

definition sumas :: "calificacion list \<Rightarrow> jsnum \<times> jsnum" where
  "sumas calificacionesConNota = foldl acumular (Fin 0, Fin 0) calificacionesConNota"

text \<open>
  \<open>_calcularNotaFinal\<close>. The argument is \<open>None\<close> when the caller passes \<open>null\<close> or
  \<open>undefined\<close> instead of an array.
\<close>

definition calcularNotaFinal :: "calificacion list option \<Rightarrow> numopt" where
  "calcularNotaFinal calificaciones =
     (case calificaciones of
        None \<Rightarrow> Null
      | Some cals \<Rightarrow>
          if length cals = 0 then Null
          else
            (let calificacionesConNota = filter tieneNota cals in
             if length calificacionesConNota = 0 then Null
             else
               (let sumaPonderada = fst (sumas calificacionesConNota);
                    sumaPonderaciones = snd (sumas calificacionesConNota)
                in if jeq sumaPonderaciones (Fin 0) then Null
                   else
                     (let notaFinal = jdiv (jmul sumaPonderada (Fin 100)) sumaPonderaciones
                      in Num (jdiv (math_round (jmul notaFinal (Fin 100))) (Fin 100))))))"

text \<open>
  \<open>_calcularNotaFinal\<close> of the validation service: as that of the grade service, but an
  evaluation is kept when its \<open>nota\<close> is not \<open>null\<close>.
\<close>

definition calcularNotaFinalValidacion :: "calificacion list option \<Rightarrow> numopt" where
  "calcularNotaFinalValidacion calificaciones =
     (case calificaciones of
        None \<Rightarrow> Null
      | Some cals \<Rightarrow>
          if length cals = 0 then Null
          else
            (let calificacionesConNota = filter (\<lambda>cal. nota cal \<noteq> JNull) cals in
             if length calificacionesConNota = 0 then Null
             else
               (let sumaPonderada = fst (sumas calificacionesConNota);
                    sumaPonderaciones = snd (sumas calificacionesConNota)
                in if jeq sumaPonderaciones (Fin 0) then Null
                   else
                     (let nf = jdiv (jmul sumaPonderada (Fin 100)) sumaPonderaciones
                      in Num (jdiv (math_round (jmul nf (Fin 100))) (Fin 100))))))"

text \<open>
  The value of the local \<open>notaFinal\<close> of \<open>_calcularNotaFinal\<close>, before it is rounded
  (defined when the function reaches that line).
\<close>

definition notaProporcional :: "calificacion list \<Rightarrow> jsnum" where
  "notaProporcional cals =
     jdiv (jmul (fst (sumas (filter tieneNota cals))) (Fin 100)) (snd (sumas (filter tieneNota cals)))"

text \<open>\<open>_determinarEstadoAprobacion\<close>\<close>

definition determinarEstadoAprobacion :: "numopt \<Rightarrow> estado" where
  "determinarEstadoAprobacion notaFinal =
     (if notaFinal = Null \<or> notaFinal = Undefined then
        \<lparr>codigo = ''SIN_CALIFICAR'', descripcion = ''Sin Calificar'', aprobado = False,
         color = ''warning''\<rparr>
      else if jge (toNum notaFinal) (Fin 61) then
        \<lparr>codigo = ''APROBADO'', descripcion = ''Aprobado'', aprobado = True, color = ''success''\<rparr>
      else
        \<lparr>codigo = ''REPROBADO'', descripcion = ''Reprobado'', aprobado = False, color = ''danger''\<rparr>)"

record inscripcion =
  cursoInscrito :: curso
  calificaciones :: "calificacion list"

record cursoItem =
  curso :: curso
  notaFinal :: numopt
  estado :: estado

record estadisticas =
  totalCursos :: nat
  cursosCalificados :: nat
  cursosAprobados :: nat
  cursosReprobados :: nat
  promedioGeneral :: numopt
  creditosTotales :: jsnum
  creditosAprobados :: jsnum

text \<open>The object built for one enrollment in \<open>obtenerCalificacionesPorSemestre\<close>.\<close>

definition procesarInscripcion :: "inscripcion \<Rightarrow> cursoItem" where
  "procesarInscripcion ins =
     (let notaFinal = calcularNotaFinal (Some (calificaciones ins));
          estadoAprobacion = determinarEstadoAprobacion notaFinal
      in \<lparr>curso = cursoInscrito ins, notaFinal = notaFinal, estado = estadoAprobacion\<rparr>)"

text \<open>
  One turn of the \<open>forEach\<close> of \<open>_calcularEstadisticasGenerales\<close> over
  \<open>(sumaNotasPonderadas, creditosTotales, creditosAprobados)\<close>.
\<close>

definition sumarCurso :: "jsnum \<times> jsnum \<times> jsnum \<Rightarrow> 'a cursoItem_scheme \<Rightarrow> jsnum \<times> jsnum \<times> jsnum" where
  "sumarCurso acc c =
     (case acc of (sumaNotasPonderadas, creditosTot, creditosAprob) \<Rightarrow>
        (jadd sumaNotasPonderadas (jmul (toNum (notaFinal c)) (creditos (curso c))),
         jadd creditosTot (creditos (curso c)),
         if aprobado (estado c) then jadd creditosAprob (creditos (curso c)) else creditosAprob))"

text \<open>\<open>cursos.reduce((sum, curso) => sum + curso.curso.creditos, 0)\<close>\<close>

definition sumaCreditos :: "'a cursoItem_scheme list \<Rightarrow> jsnum" where
  "sumaCreditos cs = foldl (\<lambda>sum c. jadd sum (creditos (curso c))) (Fin 0) cs"

text \<open>\<open>_calcularEstadisticasGenerales\<close> of the grade service.\<close>

definition calcularEstadisticasGenerales :: "cursoItem list \<Rightarrow> estadisticas" where
  "calcularEstadisticasGenerales cursosConCalificaciones =
     (let cursosConNota = filter (\<lambda>c. notaFinal c \<noteq> Null) cursosConCalificaciones in
      if length cursosConNota = 0 then
        \<lparr>totalCursos = length cursosConCalificaciones, cursosCalificados = 0,
         cursosAprobados = 0, cursosReprobados = 0, promedioGeneral = Null,
         creditosTotales = sumaCreditos cursosConCalificaciones, creditosAprobados = Fin 0\<rparr>
      else
        (let aprobados = filter (\<lambda>c. aprobado (estado c)) cursosConNota;
             reprobados = filter (\<lambda>c. \<not> aprobado (estado c)) cursosConNota;
             acc = foldl sumarCurso (Fin 0, Fin 0, Fin 0) cursosConNota;
             sumaNotasPonderadas = fst acc;
             creditosTot = fst (snd acc);
             creditosAprob = snd (snd acc);
             promedio = (if jgt creditosTot (Fin 0) then jdiv sumaNotasPonderadas creditosTot
                         else Fin 0)
         in \<lparr>totalCursos = length cursosConCalificaciones,
             cursosCalificados = length cursosConNota,
             cursosAprobados = length aprobados,
             cursosReprobados = length reprobados,
             promedioGeneral = Num (redondear2 promedio),
             creditosTotales = sumaCreditos cursosConCalificaciones,
             creditosAprobados = creditosAprob\<rparr>))"

text \<open>
  The data-access collaborator: each query answers with a row (or \<open>null\<close>), or fails with
  a message. A found semester is given by its \<open>id\<close>.
\<close>

record db =
  semestreFindOne :: "jsval \<Rightarrow> jsval \<Rightarrow> string + jsval option"
  estudianteFindByPk :: "jsval \<Rightarrow> string + unit option"
  inscripcionFindAll :: "jsval \<Rightarrow> jsval \<Rightarrow> string + inscripcion list"

datatype consulta =
  SemestreFindOne jsval jsval
| EstudianteFindByPk jsval
| InscripcionFindAll jsval jsval

record datosReporte =
  cursosReporte :: "cursoItem list"
  estadisticasReporte :: estadisticas

text \<open>
  \<open>Exito d\<close> is \<open>{success: true, data: d, ...}\<close>; \<open>Fallo m\<close> is
  \<open>{success: false, mensaje: m, error: m}\<close>.
\<close>

datatype respuesta = Exito datosReporte | Fallo string

definition mensajeParametros :: string where
  "mensajeParametros =
     ''Par'' @ [a_acute] @ ''metros requeridos: idEstudiante, a'' @ [n_tilde] @ ''o, numeroSemestre''"

definition mensajeNumero :: string where
  "mensajeNumero = ''N'' @ [u_acute] @ ''mero de semestre debe ser 1 o 2''"

definition mensajeSemestre :: "host \<Rightarrow> jsval \<Rightarrow> jsval \<Rightarrow> string" where
  "mensajeSemestre h numeroSemestre anio =
     ''Semestre '' @ toStr h numeroSemestre @ ''/'' @ toStr h anio @ '' no encontrado''"

text \<open>
  \<open>obtenerCalificacionesPorSemestre\<close>: the answer, and the queries sent to the
  data-access collaborator, in order. Every \<open>throw\<close> and every failed query ends in the
  \<open>catch\<close>, which answers \<open>Fallo\<close> with the message.
\<close>

definition obtenerCalificacionesPorSemestre ::
    "host \<Rightarrow> db \<Rightarrow> jsval \<Rightarrow> jsval \<Rightarrow> jsval \<Rightarrow> respuesta \<times> consulta list" where
  "obtenerCalificacionesPorSemestre h d idEstudiante anio numeroSemestre =
     (if falsy idEstudiante \<or> falsy anio \<or> falsy numeroSemestre then
        (Fallo mensajeParametros, [])
      else if \<not> (numeroSemestre = JNum (Fin 1) \<or> numeroSemestre = JNum (Fin 2)) then
        (Fallo mensajeNumero, [])
      else
        (case semestreFindOne d anio numeroSemestre of
           Inl e \<Rightarrow> (Fallo e, [SemestreFindOne anio numeroSemestre])
         | Inr None \<Rightarrow>
             (Fallo (mensajeSemestre h numeroSemestre anio), [SemestreFindOne anio numeroSemestre])
         | Inr (Some idSemestre) \<Rightarrow>
             (case estudianteFindByPk d idEstudiante of
                Inl e \<Rightarrow>
                  (Fallo e, [SemestreFindOne anio numeroSemestre, EstudianteFindByPk idEstudiante])
              | Inr None \<Rightarrow>
                  (Fallo ''Estudiante no encontrado'',
                   [SemestreFindOne anio numeroSemestre, EstudianteFindByPk idEstudiante])
              | Inr (Some estudiante) \<Rightarrow>
                  (case inscripcionFindAll d idEstudiante idSemestre of
                     Inl e \<Rightarrow>
                       (Fallo e,
                        [SemestreFindOne anio numeroSemestre, EstudianteFindByPk idEstudiante,
                         InscripcionFindAll idEstudiante idSemestre])
                   | Inr inscripciones \<Rightarrow>
                       (let cursosConCalificaciones = map procesarInscripcion inscripciones
                        in (Exito \<lparr>cursosReporte = cursosConCalificaciones,
                                   estadisticasReporte =
                                     calcularEstadisticasGenerales cursosConCalificaciones\<rparr>,
                            [SemestreFindOne anio numeroSemestre, EstudianteFindByPk idEstudiante,
                             InscripcionFindAll idEstudiante idSemestre]))))))"


section \<open>The validation service (\<open>validacion.service.js\<close>)\<close>

text \<open>\<open>FormatHelper.formatearNumero\<close>: \<open>Number(numero || 0).toFixed(decimales)\<close>\<close>

definition formatearNumero :: "host \<Rightarrow> jsnum \<Rightarrow> nat \<Rightarrow> string" where
  "formatearNumero h numero decimales =
     toFixed h (if numero = NaN \<or> numero = Fin 0 then Fin 0 else numero) decimales"

text \<open>
  A course of a semester group, as \<open>_agruparCursosPorSemestre\<close> builds it, and the
  group with the descriptive label of its semester.
\<close>

record cursoValidado = cursoItem +
  cantidadEvaluaciones :: nat
  validado :: bool

record semestreInfo =
  descripcion :: string

record grupoSemestre =
  semestre :: semestreInfo
  cursos :: "cursoValidado list"

text \<open>The texts the alerts are recognised by.\<close>

definition textoCargaBaja :: string where
  "textoCargaBaja = ''Carga acad'' @ [e_acute] @ ''mica baja''"

definition textoBajoPorcentaje :: string where
  "textoBajoPorcentaje = ''Bajo porcentaje''"

text \<open>\<open>_generarRecomendaciones\<close>\<close>

definition recRepetir :: string where
  "recRepetir = ''Considerar repetir cursos reprobados en pr'' @ [o_acute] @ ''ximas oportunidades''"

definition recTutoria :: string where
  "recTutoria =
     ''Solicitar tutor'' @ [i_acute] @ ''a acad'' @ [e_acute] @ ''mica para materias de mayor dificultad''"

definition recCarga :: string where
  "recCarga =
     ''Incrementar la carga acad'' @ [e_acute] @ ''mica para mantener progresi'' @ [o_acute] @ ''n normal''"

definition recMetodos :: string where
  "recMetodos = ''Revisar m'' @ [e_acute] @ ''todos de estudio y t'' @ [e_acute] @ ''cnicas de aprendizaje''"

definition recApoyo :: string where
  "recApoyo = ''Considerar apoyo psicopedag'' @ [o_acute] @ ''gico si es necesario''"

definition recMantener :: string where
  "recMantener = ''Mantener el excelente desempe'' @ [n_tilde] @ ''o acad'' @ [e_acute] @ ''mico''"

definition recExtra :: string where
  "recExtra = ''Considerar participar en actividades extracurriculares''"

definition generarRecomendaciones :: "string list \<Rightarrow> nat \<Rightarrow> string list" where
  "generarRecomendaciones alertas semestresConReprobados =
     (let r1 = (if 0 < semestresConReprobados then [recRepetir, recTutoria] else []);
          r2 = (if list_ex (\<lambda>a. includes_str a textoCargaBaja) alertas then r1 @ [recCarga] else r1);
          r3 = (if list_ex (\<lambda>a. includes_str a textoBajoPorcentaje) alertas
                then r2 @ [recMetodos, recApoyo] else r2)
      in if length r3 = 0 then r3 @ [recMantener, recExtra] else r3)"

text \<open>The course object \<open>_agruparCursosPorSemestre\<close> pushes for one enrollment.\<close>

definition construirCurso :: "inscripcion \<Rightarrow> cursoValidado" where
  "construirCurso ins =
     (let nf = calcularNotaFinalValidacion (Some (calificaciones ins));
          estadoAprobacion = determinarEstadoAprobacion nf
      in \<lparr>curso = cursoInscrito ins, notaFinal = nf, estado = estadoAprobacion,
          cantidadEvaluaciones = length (calificaciones ins),
          validado = (nf \<noteq> Null \<and> jge (toNum nf) (Fin 61))\<rparr>)"

text \<open>What the loop of \<open>_validarProgresionAcademica\<close> updates.\<close>

record progreso =
  alertas :: "string list"
  semestresBajoCursos :: nat
  semestresConReprobados :: nat

record validacionProgresion = progreso +
  nivel :: string
  observaciones :: "string list"
  requiereAtencion :: bool
  recomendaciones :: "string list"

text \<open>The three constants computed at the head of the loop body.\<close>

definition cursosAprobadosSemestre :: "grupoSemestre \<Rightarrow> nat" where
  "cursosAprobadosSemestre sem = length (filter validado (cursos sem))"

definition cursosReprobadosSemestre :: "grupoSemestre \<Rightarrow> nat" where
  "cursosReprobadosSemestre sem =
     length (filter (\<lambda>c. notaFinal c \<noteq> Null \<and> \<not> validado c) (cursos sem))"

definition creditosSemestre :: "grupoSemestre \<Rightarrow> jsnum" where
  "creditosSemestre sem = sumaCreditos (cursos sem)"

definition porcentajeAprobacion :: "grupoSemestre \<Rightarrow> jsnum" where
  "porcentajeAprobacion sem =
     (if 0 < length (cursos sem)
      then jmul (jdiv (of_count (cursosAprobadosSemestre sem)) (of_count (length (cursos sem))))
             (Fin 100)
      else Fin 0)"

text \<open>The three alerts.\<close>

definition alertaCarga :: "host \<Rightarrow> grupoSemestre \<Rightarrow> string" where
  "alertaCarga h sem =
     descripcion (semestre sem) @ '': '' @ textoCargaBaja @ '' ('' @
     numberToString h (creditosSemestre sem) @ '' cr'' @ [e_acute] @ ''ditos)''"

definition alertaReprobados :: "host \<Rightarrow> grupoSemestre \<Rightarrow> string" where
  "alertaReprobados h sem =
     descripcion (semestre sem) @ '': '' @
     numberToString h (of_count (cursosReprobadosSemestre sem)) @ '' curso(s) reprobado(s)''"

definition alertaPorcentaje :: "host \<Rightarrow> grupoSemestre \<Rightarrow> string" where
  "alertaPorcentaje h sem =
     descripcion (semestre sem) @ '': '' @ textoBajoPorcentaje @ '' de aprobaci'' @ [o_acute] @
     ''n ('' @ formatearNumero h (porcentajeAprobacion sem) 1 @ ''%)''"

text \<open>The body of the \<open>forEach\<close> of \<open>_validarProgresionAcademica\<close>.\<close>

definition revisarSemestre :: "host \<Rightarrow> progreso \<Rightarrow> grupoSemestre \<Rightarrow> progreso" where
  "revisarSemestre h p sem =
     (let p1 = (if jlt (creditosSemestre sem) (Fin 12)
                then p\<lparr>alertas := alertas p @ [alertaCarga h sem],
                       semestresBajoCursos := semestresBajoCursos p + 1\<rparr>
                else p);
          p2 = (if 0 < cursosReprobadosSemestre sem
                then p1\<lparr>alertas := alertas p1 @ [alertaReprobados h sem],
                        semestresConReprobados := semestresConReprobados p1 + 1\<rparr>
                else p1)
      in if jlt (porcentajeAprobacion sem) (Fin 75) \<and> 0 < length (cursos sem)
         then p2\<lparr>alertas := alertas p2 @ [alertaPorcentaje h sem]\<rparr>
         else p2)"

text \<open>The alerts one turn of the loop adds.\<close>

definition alertasSemestre :: "host \<Rightarrow> grupoSemestre \<Rightarrow> string list" where
  "alertasSemestre h sem =
     alertas (revisarSemestre h
       \<lparr>alertas = [], semestresBajoCursos = 0, semestresConReprobados = 0\<rparr> sem)"

text \<open>\<open>_validarProgresionAcademica\<close>\<close>

definition validarProgresionAcademica :: "host \<Rightarrow> grupoSemestre list \<Rightarrow> validacionProgresion" where
  "validarProgresionAcademica h cursosPorSemestre =
     (let p = foldl (revisarSemestre h)
                \<lparr>alertas = [], semestresBajoCursos = 0, semestresConReprobados = 0\<rparr>
                cursosPorSemestre;
          n = length (alertas p);
          nivelProgresion =
            (if n = 0 then ''EXCELENTE'' else if n \<le> 2 then ''BUENA''
             else if n \<le> 4 then ''REGULAR'' else ''DEFICIENTE'');
          obs =
            (if n = 0 then ''Progresi'' @ [o_acute] @ ''n acad'' @ [e_acute] @
                 ''mica excelente sin observaciones''
             else if n \<le> 2 then ''Progresi'' @ [o_acute] @ ''n acad'' @ [e_acute] @
                 ''mica buena con observaciones menores''
             else if n \<le> 4 then ''Progresi'' @ [o_acute] @ ''n acad'' @ [e_acute] @
                 ''mica regular, requiere atenci'' @ [o_acute] @ ''n''
             else ''Progresi'' @ [o_acute] @ ''n acad'' @ [e_acute] @
                 ''mica deficiente, requiere intervenci'' @ [o_acute] @ ''n acad'' @ [e_acute] @ ''mica'')
      in \<lparr>alertas = alertas p,
          semestresBajoCursos = semestresBajoCursos p,
          semestresConReprobados = semestresConReprobados p,
          nivel = nivelProgresion,
          observaciones = [obs],
          requiereAtencion = (2 < n),
          recomendaciones = generarRecomendaciones (alertas p) (semestresConReprobados p)\<rparr>)"


section \<open>The specification of the grade calculator and of the semester average\<close>

text \<open>The sum of a sequence of numbers, taken in order from 0.\<close>

definition fsum :: "jsnum list \<Rightarrow> jsnum" where
  "fsum xs = foldl jadd (Fin 0) xs"

text \<open>
  Rounding to 2 decimal places with round-half-up semantics, as the specification words
  it: the multiple of 0.01 nearest to a value, the upper one when two are equally near.
\<close>

definition roundHalfUp2 :: "rat \<Rightarrow> rat" where
  "roundHalfUp2 q = of_int \<lfloor>q * 100 + 1 / 2\<rfloor> / 100"

text \<open>
  The rounded value as a number: the number nearest to it. \<open>NaN\<close> and the infinities
  have no decimals to round.
\<close>

fun roundedTo2 :: "jsnum \<Rightarrow> jsnum" where
  "roundedTo2 (Fin q) = round_double (roundHalfUp2 q)"
| "roundedTo2 x = x"

text \<open>
  \<open>weightedSum\<close> and \<open>weightTotal\<close> of the specification: over the evaluations that
  have a score, the sum of \<open>score * weight / 100\<close> and the sum of the weights.
\<close>

definition weightedSum :: "calificacion list \<Rightarrow> jsnum" where
  "weightedSum evaluations =
     fsum (map (\<lambda>e. jdiv (jmul (parseFloat (nota e)) (parseFloat (ponderacion e))) (Fin 100))
            (filter tieneNota evaluations))"

definition weightTotal :: "calificacion list \<Rightarrow> jsnum" where
  "weightTotal evaluations =
     fsum (map (\<lambda>e. parseFloat (ponderacion e)) (filter tieneNota evaluations))"

text \<open>
  \<open>computeFinalGrade\<close> as the specification words it: absent when the sequence is empty
  or no evaluation has a score; absent when \<open>weightTotal\<close> is 0, and otherwise
  \<open>(weightedSum * 100) / weightTotal\<close> rounded to 2 decimal places.
\<close>

definition computeFinalGrade :: "calificacion list \<Rightarrow> numopt" where
  "computeFinalGrade evaluations =
     (if evaluations = [] \<or> filter tieneNota evaluations = [] then Null
      else if jeq (weightTotal evaluations) (Fin 0) then Null
      else Num (roundedTo2
             (jdiv (jmul (weightedSum evaluations) (Fin 100)) (weightTotal evaluations))))"



section \<open>Example inputs\<close>

text \<open>
  A graded course with the given credits and final grade, as \<open>_agruparCursosPorSemestre\<close>
  builds it, and a semester group with the given label.
\<close>

definition cursoEjemplo :: "rat \<Rightarrow> rat \<Rightarrow> cursoValidado" where
  "cursoEjemplo cr n =
     \<lparr>curso = \<lparr>creditos = Fin cr\<rparr>, notaFinal = Num (Fin n),
      estado = determinarEstadoAprobacion (Num (Fin n)), cantidadEvaluaciones = 1,
      validado = (61 \<le> n)\<rparr>"

definition semestreEjemplo :: "string \<Rightarrow> cursoValidado list \<Rightarrow> grupoSemestre" where
  "semestreEjemplo d cs = \<lparr>semestre = \<lparr>descripcion = d\<rparr>, cursos = cs\<rparr>"

section \<open>Rounding to binary64\<close>

lemma p2_pos [simp]: "0 < (2::rat) powi k"
  by (simp add: zero_less_power_int)

lemma p2_mono: "a \<le> b \<Longrightarrow> (2::rat) powi a \<le> 2 powi b"
  by (rule power_int_increasing) simp_all

lemma p2_smono: "a < b \<Longrightarrow> (2::rat) powi a < 2 powi b"
  by (rule power_int_strict_increasing) simp_all

lemma p2_le_iff: "(2::rat) powi a \<le> 2 powi b \<longleftrightarrow> a \<le> b"
  by (meson leD leI p2_mono p2_smono)

lemma p2_less_iff: "(2::rat) powi a < 2 powi b \<longleftrightarrow> a < b"
  by (meson leD leI p2_mono p2_smono)

lemma p2_add: "(2::rat) powi (a + b) = 2 powi a * 2 powi b"
  by (simp add: power_int_add)

lemma p2_diff: "(2::rat) powi (a - b) = 2 powi a / 2 powi b"
  by (simp add: power_int_diff)

lemma p2_nat: "0 \<le> k \<Longrightarrow> (2::rat) powi k = of_int (2 ^ nat k)"
  by (simp add: power_int_def)

lemma ilog2_bounds:
  assumes "0 < q"
  shows "2 powi (ilog2 q) \<le> q \<and> q < 2 powi (ilog2 q + 1)"
proof (cases "1 \<le> q")
  case True
  define m where "m = \<lfloor>q\<rfloor>"
  have m1: "1 \<le> m" using True by (simp add: m_def le_floor_iff)
  then have m0: "0 < m" by simp
  have b1: "1 \<le> bitlen m" using m0 bitlen_eq_zero_iff[of m] bitlen_nonneg[of m] by linarith
  from bitlen_bounds[OF m0] have lo: "2 ^ nat (bitlen m - 1) \<le> m" and hi: "m < 2 ^ nat (bitlen m)"
    by simp_all
  have "2 powi (bitlen m - 1) = (of_int (2 ^ nat (bitlen m - 1)) :: rat)"
    using b1 by (simp add: p2_nat)
  also have "\<dots> \<le> of_int m" using lo by (simp only: of_int_le_iff)
  also have "\<dots> \<le> q" by (simp add: m_def)
  finally have A: "2 powi (bitlen m - 1) \<le> q" .
  have "m + 1 \<le> 2 ^ nat (bitlen m)" using hi by simp
  then have "(of_int (m + 1) :: rat) \<le> of_int (2 ^ nat (bitlen m))" by (simp only: of_int_le_iff)
  moreover have "q < of_int (m + 1)" using floor_correct[of q] by (simp add: m_def)
  ultimately have "q < (of_int (2 ^ nat (bitlen m)) :: rat)" by linarith
  then have B: "q < 2 powi (bitlen m)" using b1 by (simp add: p2_nat)
  show ?thesis using True A B by (simp add: ilog2_def m_def)
next
  case False
  define r where "r = 1 / q"
  have r1: "1 < r" using False assms by (simp add: r_def)
  define m where "m = \<lfloor>r\<rfloor>"
  have m1: "1 \<le> m" using r1 by (simp add: m_def le_floor_iff)
  then have m0: "0 < m" by simp
  define b where "b = bitlen m"
  have b1: "1 \<le> b" using m0 bitlen_eq_zero_iff[of m] bitlen_nonneg[of m] unfolding b_def by linarith
  from bitlen_bounds[OF m0] have lo: "2 ^ nat (b - 1) \<le> m" and hi: "m < 2 ^ nat b"
    by (simp_all add: b_def)
  have "2 powi (b - 1) = (of_int (2 ^ nat (b - 1)) :: rat)"
    using b1 by (simp add: p2_nat)
  also have "\<dots> \<le> of_int m" using lo by (simp only: of_int_le_iff)
  also have "\<dots> \<le> r" by (simp add: m_def)
  finally have A: "2 powi (b - 1) \<le> r" .
  have "m + 1 \<le> 2 ^ nat b" using hi by simp
  then have "(of_int (m + 1) :: rat) \<le> of_int (2 ^ nat b)" by (simp only: of_int_le_iff)
  moreover have "r < of_int (m + 1)" using floor_correct[of r] by (simp add: m_def)
  ultimately have "r < (of_int (2 ^ nat b) :: rat)" by linarith
  then have B: "r < 2 powi b" using b1 by (simp add: p2_nat)
  have qr: "q = 1 / r" by (simp add: r_def)
  have r0: "0 < r" using r1 by simp
  have lo': "2 powi (- b) < q"
  proof -
    have "1 / (2 powi b) < 1 / r" using B r0 by (simp add: frac_less2)
    then show ?thesis by (simp add: qr power_int_minus_divide)
  qed
  have hi': "q \<le> 2 powi (- b + 1)"
  proof -
    have "1 / r \<le> 1 / (2 powi (b - 1))" using A by (simp add: frac_le)
    moreover have "(2::rat) powi (1 - b) = 1 / 2 powi (b - 1)"
      using power_int_minus_divide[of "2::rat" "b - 1"] by simp
    ultimately show ?thesis by (simp add: qr)
  qed
  show ?thesis
  proof (cases "2 powi (- b + 1) \<le> q")
    case True
    have "q < 2 powi (- b + 1 + 1)" using hi' p2_smono[of "- b + 1" "- b + 1 + 1"] by linarith
    then show ?thesis using True False by (simp add: ilog2_def Let_def r_def[symmetric] m_def[symmetric] b_def[symmetric])
  next
    case F2: False
    then show ?thesis using False lo' by (simp add: ilog2_def Let_def r_def[symmetric] m_def[symmetric] b_def[symmetric])
  qed
qed

lemma ilog2_unique:
  assumes "2 powi e \<le> q" "q < 2 powi (e + 1)"
  shows "ilog2 q = e"
proof -
  have q0: "0 < q" using assms(1) p2_pos[of e] by linarith
  from ilog2_bounds[OF q0] have a: "2 powi (ilog2 q) \<le> q" and b: "q < 2 powi (ilog2 q + 1)" by simp_all
  have "2 powi e < (2::rat) powi (ilog2 q + 1)" using assms(1) b by linarith
  then have 1: "e < ilog2 q + 1" by (simp add: p2_less_iff)
  have "2 powi (ilog2 q) < (2::rat) powi (e + 1)" using assms(2) a by linarith
  then have 2: "ilog2 q < e + 1" by (simp add: p2_less_iff)
  from 1 2 show ?thesis by simp
qed

lemma rne_of_int [simp]: "rne (of_int n) = n"
  by (simp add: rne_def)

lemma floor_le_rne: "\<lfloor>x\<rfloor> \<le> rne x"
  by (simp add: rne_def Let_def)

lemma rne_le_ceiling: "rne x \<le> \<lceil>x\<rceil>"
proof (cases "x = of_int \<lfloor>x\<rfloor>")
  case True
  then have "rne x = \<lfloor>x\<rfloor>" by (metis rne_of_int)
  then show ?thesis by simp
next
  case False
  then have "\<lceil>x\<rceil> = \<lfloor>x\<rfloor> + 1"
    by (metis ceiling_altdef)
  moreover have "rne x \<le> \<lfloor>x\<rfloor> + 1" by (simp add: rne_def Let_def)
  ultimately show ?thesis by simp
qed

lemma rne_lower: "of_int n \<le> x \<Longrightarrow> n \<le> rne x"
  using floor_le_rne[of x] le_floor_iff[of n x] by linarith

lemma rne_upper: "x \<le> of_int n \<Longrightarrow> rne x \<le> n"
  using rne_le_ceiling[of x] ceiling_le_iff[of x n] by linarith

lemma rne_cert: "\<bar>x - of_int n\<bar> < 1 / 2 \<Longrightarrow> rne x = n"
proof -
  assume a: "\<bar>x - of_int n\<bar> < 1 / 2"
  show ?thesis
  proof (cases "of_int n \<le> x")
    case True
    then have f: "\<lfloor>x\<rfloor> = n" using a by (intro floor_unique) (auto simp: abs_if split: if_splits)
    then show ?thesis using a True by (simp add: rne_def Let_def)
  next
    case False
    then have f: "\<lfloor>x\<rfloor> = n - 1" using a by (intro floor_unique) (auto simp: abs_if split: if_splits)
    then show ?thesis using a False by (auto simp add: rne_def Let_def abs_if split: if_splits)
  qed
qed


lemma ulp_exp_minus [simp]: "ulp_exp (- q) = ulp_exp q"
  by (simp add: ulp_exp_def)

lemma ulp_exp_abs [simp]: "ulp_exp \<bar>q\<bar> = ulp_exp q"
  by (simp add: ulp_exp_def)

lemma ulp_exp_facts:
  assumes "0 < q"
  shows "- 1074 \<le> ulp_exp q" and "q < 2 powi (ulp_exp q + 53)"
    and "ulp_exp q = - 1074 \<or> 2 powi (ulp_exp q + 52) \<le> q"
proof -
  have a: "\<bar>q\<bar> = q" using assms by simp
  from ilog2_bounds[OF assms] have lo: "2 powi (ilog2 q) \<le> q" and hi: "q < 2 powi (ilog2 q + 1)"
    by simp_all
  show "- 1074 \<le> ulp_exp q" by (simp add: ulp_exp_def)
  have "ilog2 q + 1 \<le> ulp_exp q + 53" by (simp add: ulp_exp_def a)
  then have "(2::rat) powi (ilog2 q + 1) \<le> 2 powi (ulp_exp q + 53)" by (rule p2_mono)
  then show "q < 2 powi (ulp_exp q + 53)" using hi by linarith
  show "ulp_exp q = - 1074 \<or> 2 powi (ulp_exp q + 52) \<le> q"
  proof (cases "- 1022 \<le> ilog2 q")
    case True
    then have "ulp_exp q + 52 = ilog2 q" by (simp add: ulp_exp_def a)
    then show ?thesis using lo by simp
  next
    case False
    then have "ulp_exp q = - 1074" by (simp add: ulp_exp_def a)
    then show ?thesis by simp
  qed
qed

lemma rd_pos:
  assumes "0 < q"
  shows "round_double q =
    (if huge \<le> of_int (rne (q / 2 powi ulp_exp q)) * 2 powi ulp_exp q then PInf
     else Fin (of_int (rne (q / 2 powi ulp_exp q)) * 2 powi ulp_exp q))"
  using assms by (simp add: round_double_def Let_def)

lemma rd_minus: "round_double (- q) = jneg (round_double q)"
  by (simp add: round_double_def Let_def)

lemma rd_zero [simp]: "round_double 0 = Fin 0"
  by (simp add: round_double_def)

lemma p2_53: "(2::rat) powi (k + 53) / 2 powi k = 2 ^ 53"
proof -
  have "(2::rat) powi (k + 53) = 2 powi k * 2 powi 53" by (rule p2_add)
  then show ?thesis by simp
qed

lemma p2_52: "(2::rat) powi (k + 52) / 2 powi k = 2 ^ 52"
proof -
  have "(2::rat) powi (k + 52) = 2 powi k * 2 powi 52" by (rule p2_add)
  then show ?thesis by simp
qed

lemma mant_bounds:
  assumes "0 < q"
  shows "0 \<le> rne (q / 2 powi ulp_exp q)" and "rne (q / 2 powi ulp_exp q) \<le> 2 ^ 53"
    and "ulp_exp q = - 1074 \<or> 2 ^ 52 \<le> rne (q / 2 powi ulp_exp q)"
proof -
  let ?k = "ulp_exp q"
  let ?u = "(2::rat) powi ?k"
  have u0: "0 < ?u" by simp
  have "0 \<le> q / ?u" using assms by simp
  then have "of_int 0 \<le> q / ?u" by simp
  then show "0 \<le> rne (q / ?u)" by (rule rne_lower)
  have "q / ?u < 2 powi (?k + 53) / ?u"
    using ulp_exp_facts(2)[OF assms] u0 by (simp add: divide_strict_right_mono)
  then have "q / ?u \<le> of_int (2 ^ 53)" by (simp add: p2_53)
  then show "rne (q / ?u) \<le> 2 ^ 53" by (rule rne_upper)
  show "?k = - 1074 \<or> 2 ^ 52 \<le> rne (q / ?u)"
  proof (cases "?k = - 1074")
    case False
    then have "2 powi (?k + 52) \<le> q" using ulp_exp_facts(3)[OF assms] by simp
    then have "2 powi (?k + 52) / ?u \<le> q / ?u" using u0 by (simp add: divide_right_mono)
    then have "of_int (2 ^ 52) \<le> q / ?u" by (simp add: p2_52)
    then have "2 ^ 52 \<le> rne (q / ?u)" by (rule rne_lower)
    then show ?thesis by simp
  qed simp
qed

text \<open>A dyadic value with exponent at least \<open>k\<close> is an integer multiple of \<open>2 powi k\<close>.\<close>

lemma dyadic_multiple:
  assumes "k \<le> j"
  shows "of_int m * (2::rat) powi j = of_int (m * 2 ^ nat (j - k)) * 2 powi k"
proof -
  have "(2::rat) powi j = 2 powi (j - k) * 2 powi k"
    using p2_add[of "j - k" k] by simp
  moreover have "(2::rat) powi (j - k) = of_int (2 ^ nat (j - k))"
    using assms by (simp add: p2_nat)
  ultimately show ?thesis by simp
qed

lemma dyadic_exp_ge:
  assumes "2 powi (k + 52) \<le> of_int m * (2::rat) powi j" "m < 2 ^ 53"
  shows "k \<le> j"
proof -
  have "(of_int m :: rat) < of_int (2 ^ 53)" using assms(2) by (simp only: of_int_less_iff)
  then have "of_int m * (2::rat) powi j < of_int (2 ^ 53) * 2 powi j"
    by (simp add: mult_strict_right_mono)
  also have "\<dots> = 2 powi (j + 53)" by (simp add: p2_add)
  finally have "(2::rat) powi (k + 52) < 2 powi (j + 53)" using assms(1) by linarith
  then have "k + 52 < j + 53" by (simp add: p2_less_iff)
  then show ?thesis by simp
qed

lemma rd_exact_pos:
  assumes r: "r = of_int m * 2 powi j" and m: "0 < m" "m < 2 ^ 53" and j: "- 1074 \<le> j"
    and ov: "r < huge"
  shows "round_double r = Fin r"
proof -
  have r0: "0 < r" using r m by simp
  let ?k = "ulp_exp r"
  have kj: "?k \<le> j"
    using ulp_exp_facts(3)[OF r0] j dyadic_exp_ge[of ?k m j] m r by auto
  define M where "M = m * 2 ^ nat (j - ?k)"
  have rM: "r = of_int M * 2 powi ?k"
    unfolding M_def using dyadic_multiple[OF kj, of m] r by simp
  have "r / 2 powi ?k = of_int M * 2 powi ?k / 2 powi ?k"
    using rM by simp
  then have "r / 2 powi ?k = of_int M" by simp
  then have "rne (r / 2 powi ?k) = M" by simp
  then have "of_int (rne (r / 2 powi ?k)) * 2 powi ?k = r" using rM by simp
  then show ?thesis using rd_pos[OF r0] ov by simp
qed


lemma jle_Fin [simp]: "jle (Fin a) (Fin b) = (a \<le> b)"
  by (auto simp: jle_def jeq_def)

lemma jle_PInf [simp]: "jle (Fin a) PInf" "jle NInf (Fin a)"
  by (simp_all add: jle_def)

lemma huge_pos [simp]: "0 < huge"
  by (simp add: huge_def zero_less_power_int)

lemma dyadic53_minus: "dyadic53 r \<Longrightarrow> dyadic53 (- r)"
  unfolding dyadic53_def
  apply (elim exE conjE)
  subgoal for m j by (rule exI[of _ "- m"], rule exI[of _ j]) simp
  done

lemma dyadic53_zero [simp]: "dyadic53 0"
  unfolding dyadic53_def by (rule exI[of _ 0], rule exI[of _ 0]) simp

lemma dyadic53_posE:
  assumes "dyadic53 r" "0 < r"
  obtains m j where "r = of_int m * 2 powi j" "0 < m" "m < 2 ^ 53" "- 1074 \<le> j" "r < huge"
proof -
  from assms(1) obtain m j where *: "r = of_int m * 2 powi j" "\<bar>m\<bar> < 2 ^ 53" "- 1074 \<le> j" "\<bar>r\<bar> < huge"
    unfolding dyadic53_def by blast
  have "0 < of_int m * (2::rat) powi j" using assms(2) * by simp
  then have "0 < (of_int m :: rat)"
    using zero_less_mult_pos2[of "of_int m" "(2::rat) powi j"] by simp
  then have "0 < m" by simp
  with * assms(2) show ?thesis by (intro that[of m j]) auto
qed

lemma rd_lower_pos:
  assumes q: "0 < q" and r: "r = of_int m * 2 powi j" and m: "0 < m" "m < 2 ^ 53"
    and j: "- 1074 \<le> j" and le: "r \<le> q"
  shows "r \<le> of_int (rne (q / 2 powi ulp_exp q)) * 2 powi ulp_exp q"
proof -
  let ?k = "ulp_exp q"
  let ?u = "(2::rat) powi ?k"
  let ?n = "rne (q / ?u)"
  have u0: "0 < ?u" by simp
  show ?thesis
  proof (cases "?k \<noteq> - 1074 \<and> r < 2 powi (?k + 52)")
    case True
    then have "2 ^ 52 \<le> ?n" using mant_bounds(3)[OF q] by simp
    then have "(of_int (2 ^ 52) :: rat) \<le> of_int ?n" by (simp only: of_int_le_iff)
    then have "of_int (2 ^ 52) * ?u \<le> of_int ?n * ?u" using u0 by (simp only: mult_le_cancel_right_pos)
    moreover have "of_int (2 ^ 52) * ?u = 2 powi (?k + 52)" by (simp add: p2_add)
    ultimately show ?thesis using True by linarith
  next
    case False
    then have "?k = - 1074 \<or> 2 powi (?k + 52) \<le> r" by auto
    then have kj: "?k \<le> j" using j dyadic_exp_ge[of ?k m j] m r by auto
    define M where "M = m * 2 ^ nat (j - ?k)"
    have rM: "r = of_int M * ?u"
      unfolding M_def using dyadic_multiple[OF kj, of m] r by simp
    have "of_int M \<le> q / ?u" using le rM u0 by (simp add: pos_le_divide_eq)
    then have "M \<le> ?n" by (rule rne_lower)
    then have "(of_int M :: rat) \<le> of_int ?n" by (simp only: of_int_le_iff)
    then have "of_int M * ?u \<le> of_int ?n * ?u" using u0 by (simp only: mult_le_cancel_right_pos)
    then show ?thesis using rM by simp
  qed
qed

lemma rd_upper_pos:
  assumes q: "0 < q" and r: "r = of_int m * 2 powi j" and m: "0 < m" "m < 2 ^ 53"
    and j: "- 1074 \<le> j" and le: "q \<le> r"
  shows "of_int (rne (q / 2 powi ulp_exp q)) * 2 powi ulp_exp q \<le> r"
proof -
  let ?k = "ulp_exp q"
  let ?u = "(2::rat) powi ?k"
  let ?n = "rne (q / ?u)"
  have u0: "0 < ?u" by simp
  show ?thesis
  proof (cases "2 powi (?k + 53) \<le> r")
    case True
    have "?n \<le> 2 ^ 53" using mant_bounds(2)[OF q] .
    then have "(of_int ?n :: rat) \<le> of_int (2 ^ 53)" by (simp only: of_int_le_iff)
    then have "of_int ?n * ?u \<le> of_int (2 ^ 53) * ?u" using u0 by (simp only: mult_le_cancel_right_pos)
    moreover have "of_int (2 ^ 53) * ?u = 2 powi (?k + 53)" by (simp add: p2_add)
    ultimately show ?thesis using True by linarith
  next
    case False
    have "?k = - 1074 \<or> 2 powi (?k + 52) \<le> r" using ulp_exp_facts(3)[OF q] le by auto
    then have kj: "?k \<le> j" using j dyadic_exp_ge[of ?k m j] m r by auto
    define M where "M = m * 2 ^ nat (j - ?k)"
    have rM: "r = of_int M * ?u"
      unfolding M_def using dyadic_multiple[OF kj, of m] r by simp
    have "q / ?u \<le> of_int M" using le rM u0 by (simp add: pos_divide_le_eq)
    then have "?n \<le> M" by (rule rne_upper)
    then have "(of_int ?n :: rat) \<le> of_int M" by (simp only: of_int_le_iff)
    then have "of_int ?n * ?u \<le> of_int M * ?u" using u0 by (simp only: mult_le_cancel_right_pos)
    then show ?thesis using rM by simp
  qed
qed

lemma rd_nonneg:
  assumes "0 \<le> q"
  shows "round_double q = PInf \<or> (\<exists>y. round_double q = Fin y \<and> 0 \<le> y)"
proof (cases "q = 0")
  case False
  then have q: "0 < q" using assms by simp
  have "0 \<le> of_int (rne (q / 2 powi ulp_exp q)) * (2::rat) powi ulp_exp q"
    using mant_bounds(1)[OF q] by simp
  then show ?thesis using rd_pos[OF q] by auto
qed simp

text \<open>Rounding never crosses a representable value.\<close>

lemma rd_lower:
  assumes "dyadic53 r" "r \<le> q"
  shows "jle (Fin r) (round_double q)"
proof -
  consider "0 < r" "0 < q" | "r \<le> 0" "0 \<le> q" | "q < 0" using assms(2) by linarith
  then show ?thesis
  proof cases
    case 1
    from dyadic53_posE[OF assms(1) 1(1)] obtain m j where
      *: "r = of_int m * 2 powi j" "0 < m" "m < 2 ^ 53" "- 1074 \<le> j" "r < huge" .
    from rd_lower_pos[OF 1(2) *(1-4) assms(2)] rd_pos[OF 1(2)] show ?thesis by auto
  next
    case 2
    from rd_nonneg[OF 2(2)] 2(1) show ?thesis by auto
  next
    case 3
    then have q': "0 < - q" and r': "0 < - r" and le: "- q \<le> - r" using assms(2) by simp_all
    from dyadic53_posE[OF dyadic53_minus[OF assms(1)] r'] obtain m j where
      *: "- r = of_int m * 2 powi j" "0 < m" "m < 2 ^ 53" "- 1074 \<le> j" "- r < huge" .
    let ?y = "of_int (rne (- q / 2 powi ulp_exp (- q))) * (2::rat) powi ulp_exp (- q)"
    have y: "?y \<le> - r" using rd_upper_pos[OF q' *(1-4) le] .
    then have "\<not> huge \<le> ?y" using *(5) by linarith
    then have "round_double (- q) = Fin ?y" using rd_pos[OF q'] by simp
    then have "round_double q = Fin (- ?y)" using rd_minus[of "- q"] by simp
    then show ?thesis using y by simp
  qed
qed

lemma rd_upper:
  assumes "dyadic53 r" "q \<le> r"
  shows "jle (round_double q) (Fin r)"
proof -
  have "jle (Fin (- r)) (round_double (- q))"
    using rd_lower[OF dyadic53_minus[OF assms(1)], of "- q"] assms(2) by simp
  then show ?thesis
    unfolding rd_minus by (cases "round_double q") (auto simp add: jle_def jeq_def)
qed

lemma rd_exact:
  assumes "dyadic53 r"
  shows "round_double r = Fin r"
proof -
  have "jle (Fin r) (round_double r)" "jle (round_double r) (Fin r)"
    using rd_lower[OF assms, of r] rd_upper[OF assms, of r] by simp_all
  then show ?thesis by (cases "round_double r") (auto simp add: jle_def jeq_def)
qed

lemma dyadic53I:
  "r = of_int m * 2 powi j \<Longrightarrow> \<bar>m\<bar> < 2 ^ 53 \<Longrightarrow> - 1074 \<le> j \<Longrightarrow> \<bar>r\<bar> < huge \<Longrightarrow> dyadic53 r"
  unfolding dyadic53_def by blast

lemma ulp_exp_binade:
  assumes "2 powi (k + 52) \<le> q" "q < 2 powi (k + 53)" "- 1074 \<le> k"
  shows "ulp_exp q = k"
proof -
  have q0: "0 < q" using assms(1) p2_pos[of "k + 52"] by linarith
  have "ilog2 q = k + 52" using assms(1,2) by (intro ilog2_unique) (simp_all add: add.commute add.left_commute)
  then show ?thesis using q0 assms(3) by (simp add: ulp_exp_def)
qed

lemma below_huge:
  assumes "n \<le> 2 ^ 53" "k \<le> 970"
  shows "of_int n * 2 powi k < huge"
proof -
  have "(of_int n :: rat) \<le> of_int (2 ^ 53)" using assms(1) by (simp only: of_int_le_iff)
  then have "of_int n * (2::rat) powi k \<le> of_int (2 ^ 53) * 2 powi k"
    by (simp only: mult_le_cancel_right_pos p2_pos)
  also have "\<dots> = 2 powi (k + 53)" by (simp add: p2_add)
  also have "\<dots> < 2 powi 1024" using assms(2) by (intro p2_smono) simp
  finally show ?thesis by (simp only: huge_def)
qed

lemma rd_cert:
  assumes "2 powi (k + 52) \<le> q" "q < 2 powi (k + 53)" "- 1074 \<le> k" "k \<le> 970"
    and "rne (q / 2 powi k) = n"
  shows "round_double q = Fin (of_int n * 2 powi k)"
proof -
  have q0: "0 < q" using assms(1) p2_pos[of "k + 52"] by linarith
  have k: "ulp_exp q = k" using assms(1-3) by (rule ulp_exp_binade)
  have "n \<le> 2 ^ 53" using mant_bounds(2)[OF q0] k assms(5) by simp
  then have "of_int n * 2 powi k < huge" using assms(4) by (rule below_huge)
  then show ?thesis using rd_pos[OF q0] k assms(5) by simp
qed

lemma rne_tie: "x = of_int n + 1 / 2 \<Longrightarrow> rne x = (if even n then n else n + 1)"
proof -
  assume x: "x = of_int n + 1 / 2"
  have "\<lfloor>x\<rfloor> = n" unfolding x by (rule floor_unique) simp_all
  then show ?thesis by (simp add: rne_def Let_def x)
qed

lemma rd_near:
  assumes "2 powi (k + 52) \<le> q" "q < 2 powi (k + 53)" "- 1074 \<le> k" "k \<le> 970"
    and "\<bar>q / 2 powi k - of_int n\<bar> < 1 / 2"
  shows "round_double q = Fin (of_int n * 2 powi k)"
  using rd_cert[OF assms(1-4) rne_cert[OF assms(5)]] .

lemma rd_6099: "round_double (6099 / 100) = Fin (8583579414791455 / 2 ^ 47)"
  using rd_near[of "-47" "6099/100" 8583579414791455]
  by simp

lemma rd_numeral [simp]:
  "(numeral w :: int) < 2 ^ 53 \<Longrightarrow> round_double (numeral w) = Fin (numeral w)"
proof -
  assume a: "(numeral w :: int) < 2 ^ 53"
  have "dyadic53 (of_int (numeral w))"
  proof (rule dyadic53I[of _ "numeral w" 0])
    show "\<bar>numeral w :: int\<bar> < 2 ^ 53" using a by simp
    have "(of_int (numeral w) :: rat) < of_int (2 ^ 53)" using a by (simp only: of_int_less_iff)
    also have "\<dots> = 2 powi 53" by simp
    also have "\<dots> < huge" unfolding huge_def by (rule p2_smono) simp
    finally show "\<bar>rat_of_int (numeral w)\<bar> < huge" by simp
  qed simp_all
  then show ?thesis using rd_exact by fastforce
qed

lemma dyadic53I2:
  assumes "r = of_int m * 2 powi j" "\<bar>m\<bar> < 2 ^ 53" "- 1074 \<le> j" "j \<le> 970"
  shows "dyadic53 r"
proof (rule dyadic53I[OF assms(1-3)])
  have "\<bar>r\<bar> = of_int \<bar>m\<bar> * 2 powi j" by (simp add: assms(1) abs_mult)
  also have "\<dots> < huge" using assms(2,4) by (intro below_huge) simp_all
  finally show "\<bar>r\<bar> < huge" .
qed

lemma dyadic53_int: "\<bar>n\<bar> < 2 ^ 53 \<Longrightarrow> dyadic53 (of_int n)"
  by (rule dyadic53I2[of _ n 0]) simp_all

lemma jle_between:
  assumes "jle (Fin a) x" "jle x (Fin b)"
  shows "\<exists>y. x = Fin y \<and> a \<le> y \<and> y \<le> b"
  using assms by (cases x) (auto simp: jle_def jeq_def)

lemma rd_between:
  assumes "dyadic53 a" "dyadic53 b" "a \<le> q" "q \<le> b"
  shows "\<exists>y. round_double q = Fin y \<and> a \<le> y \<and> y \<le> b"
  using jle_between[OF rd_lower[OF assms(1,3)] rd_upper[OF assms(2,4)]] .

lemma pct_lt_75:
  assumes n: "0 < n" "a \<le> n" "n < 2 ^ 32"
  shows "jlt (jmul (jdiv (of_count a) (of_count n)) (Fin 100)) (Fin 75) \<longleftrightarrow> 4 * a < 3 * n"
proof -
  define x :: rat where "x = of_nat a / of_nat n"
  have n0: "(0::rat) < of_nat n" using n(1) by simp
  have x01: "0 \<le> x" "x \<le> 1" using n by (simp_all add: x_def)
  have d: "jdiv (of_count a) (of_count n) = round_double x"
    using n(1) by (simp add: of_count_def x_def)
  have d0: "dyadic53 0" by simp
  have d1: "dyadic53 1" using dyadic53_int[of 1] by simp
  have d34: "dyadic53 (3 / 4)" by (rule dyadic53I2[of _ 3 "- 2"]) simp_all
  have d75: "dyadic53 75" using dyadic53_int[of 75] by simp
  have d100: "dyadic53 100" using dyadic53_int[of 100] by simp
  show ?thesis
  proof (cases "4 * a < 3 * n")
    case True
    define c :: rat where "c = 3 / 4 - 1 / 2 ^ 34"
    have dc: "dyadic53 c" unfolding c_def by (rule dyadic53I2[of _ "3 * 2 ^ 32 - 1" "- 34"]) simp_all
    have dd: "dyadic53 (100 * c)" unfolding c_def
      by (rule dyadic53I2[of _ "75 * 2 ^ 32 - 25" "- 32"]) simp_all
    have "4 * a + 1 \<le> 3 * n" using True by simp
    then have "(of_nat (4 * a + 1) :: rat) \<le> of_nat (3 * n)" by (simp only: of_nat_le_iff)
    then have "4 * of_nat a + 1 \<le> 3 * (of_nat n :: rat)" by simp
    then have "4 * x + 1 / of_nat n \<le> 3" using n0 by (simp add: x_def field_simps)
    moreover have "1 / 2 ^ 32 < 1 / (of_nat n :: rat)"
    proof -
      have "(of_nat n :: rat) < of_nat (2 ^ 32)" using n(3) by (simp only: of_nat_less_iff)
      then show ?thesis using n0 by (simp add: frac_less2)
    qed
    ultimately have xc: "x \<le> c" by (simp add: c_def)
    from rd_between[OF d0 dc x01(1) xc] obtain y where y: "round_double x = Fin y" "0 \<le> y" "y \<le> c"
      by blast
    have "100 * y \<le> 100 * c" "0 \<le> 100 * y" using y by simp_all
    from rd_between[OF d0 dd this(2,1)] obtain z where z: "round_double (100 * y) = Fin z" "z \<le> 100 * c"
      by blast
    have "z < 75" using z(2) by (simp add: c_def)
    then show ?thesis using True d y z by (simp add: mult.commute)
  next
    case False
    then have "3 * n \<le> 4 * a" by simp
    then have "(of_nat (3 * n) :: rat) \<le> of_nat (4 * a)" by (simp only: of_nat_le_iff)
    then have "3 * (of_nat n :: rat) \<le> 4 * of_nat a" by simp
    then have xc: "3 / 4 \<le> x" using n0 by (simp add: x_def field_simps)
    from rd_between[OF d34 d1 xc x01(2)] obtain y where y: "round_double x = Fin y" "3 / 4 \<le> y" "y \<le> 1"
      by blast
    have "75 \<le> 100 * y" "100 * y \<le> 100" using y by simp_all
    from rd_between[OF d75 d100 this] obtain z where z: "round_double (100 * y) = Fin z" "75 \<le> z"
      by blast
    then show ?thesis using False d y z by (simp add: mult.commute)
  qed
qed


lemma rd_one [simp]: "round_double 1 = Fin 1"
  using rd_exact[OF dyadic53_int[of 1]] by simp

lemma rd_nat: "n < 2 ^ 53 \<Longrightarrow> round_double (of_nat n) = Fin (of_nat n)"
proof -
  assume "n < 2 ^ 53"
  then have "int n < 2 ^ 53" by (metis of_nat_less_iff of_nat_numeral of_nat_power)
  then have "dyadic53 (of_int (int n))" by (intro dyadic53_int) simp
  then show ?thesis using rd_exact by fastforce
qed

lemma foldl_creditos_nat:
  "map (\<lambda>c. creditos (curso c)) cs = map of_count cr \<Longrightarrow> k + sum_list cr < 2 ^ 53 \<Longrightarrow>
   foldl (\<lambda>sum c. jadd sum (creditos (curso c))) (of_count k) cs = of_count (k + sum_list cr)"
proof (induction cs arbitrary: k cr)
  case Nil
  then show ?case by simp
next
  case (Cons c cs)
  then obtain n cr' where cr: "cr = n # cr'" by (cases cr) auto
  have c: "creditos (curso c) = of_count n" and rest: "map (\<lambda>c. creditos (curso c)) cs = map of_count cr'"
    using Cons.prems(1) cr by simp_all
  have "k + n < 2 ^ 53" using Cons.prems(2) cr by simp
  then have step: "jadd (of_count k) (of_count n) = of_count (k + n)"
    using rd_nat[of "k + n"] by (simp add: of_count_def)
  have "(k + n) + sum_list cr' < 2 ^ 53" using Cons.prems(2) cr by simp
  from Cons.IH[OF rest this] show ?case using step c cr by (simp add: add.assoc)
qed

lemma sumaCreditos_nat:
  assumes "map (\<lambda>c. creditos (curso c)) cs = map of_count cr" "sum_list cr < 2 ^ 53"
  shows "sumaCreditos cs = of_count (sum_list cr)"
  using foldl_creditos_nat[of cs cr 0] assms by (simp add: sumaCreditos_def of_count_def)

lemma sumaCreditos_fsum: "sumaCreditos cs = fsum (map (\<lambda>c. creditos (curso c)) cs)"
  by (simp add: sumaCreditos_def fsum_def foldl_map)

lemma revisar_alertas:
  "alertas (revisarSemestre h p sem) = alertas p @ alertasSemestre h sem"
  by (simp add: revisarSemestre_def alertasSemestre_def Let_def)

lemma revisar_conReprobados:
  "semestresConReprobados (revisarSemestre h p sem) =
     semestresConReprobados p + (if 0 < cursosReprobadosSemestre sem then 1 else 0)"
  by (simp add: revisarSemestre_def Let_def)

lemma foldl_alertas:
  "alertas (foldl (revisarSemestre h) p sems) = alertas p @ concat (map (alertasSemestre h) sems)"
  by (induction sems arbitrary: p) (simp_all add: revisar_alertas)

lemma foldl_conReprobados:
  "semestresConReprobados (foldl (revisarSemestre h) p sems) =
     semestresConReprobados p + length (filter (\<lambda>s. 0 < cursosReprobadosSemestre s) sems)"
  by (induction sems arbitrary: p) (simp_all add: revisar_conReprobados)

lemma validar_alertas:
  "alertas (validarProgresionAcademica h sems) = concat (map (alertasSemestre h) sems)"
  by (simp add: validarProgresionAcademica_def Let_def foldl_alertas)

lemma validar_conReprobados:
  "semestresConReprobados (validarProgresionAcademica h sems) =
     length (filter (\<lambda>s. 0 < cursosReprobadosSemestre s) sems)"
  by (simp add: validarProgresionAcademica_def Let_def foldl_conReprobados)

lemma aprobados_le: "cursosAprobadosSemestre sem \<le> length (cursos sem)"
  by (simp add: cursosAprobadosSemestre_def)

lemma alertasSemestre_eq:
  assumes "length (cursos sem) < 2 ^ 32"
  shows "alertasSemestre h sem =
     (if jlt (creditosSemestre sem) (Fin 12) then [alertaCarga h sem] else []) @
     (if 0 < cursosReprobadosSemestre sem then [alertaReprobados h sem] else []) @
     (if 0 < length (cursos sem) \<and> 4 * cursosAprobadosSemestre sem < 3 * length (cursos sem)
      then [alertaPorcentaje h sem] else [])"
proof (cases "0 < length (cursos sem)")
  case True
  have "jlt (porcentajeAprobacion sem) (Fin 75) \<longleftrightarrow>
        4 * cursosAprobadosSemestre sem < 3 * length (cursos sem)"
    using pct_lt_75[OF True aprobados_le assms] True by (simp add: porcentajeAprobacion_def)
  then show ?thesis using True
    by (simp add: alertasSemestre_def revisarSemestre_def Let_def)
next
  case False
  then show ?thesis by (simp add: alertasSemestre_def revisarSemestre_def Let_def)
qed

section \<open>The approval classifier\<close>

text \<open>
  Claim C2. \<open>_determinarEstadoAprobacion\<close> answers \<open>SIN_CALIFICAR\<close> (not passed) for an
  absent grade, \<open>APROBADO\<close> (passed) for every grade that is at least 61 and \<open>REPROBADO\<close>
  (not passed) for every grade below 61; the grade 61 itself passes and the grade 60.99
  fails.
\<close>

theorem approval_threshold:
  "determinarEstadoAprobacion Null =
     \<lparr>codigo = ''SIN_CALIFICAR'', descripcion = ''Sin Calificar'', aprobado = False, color = ''warning''\<rparr>
   \<and> determinarEstadoAprobacion Undefined =
     \<lparr>codigo = ''SIN_CALIFICAR'', descripcion = ''Sin Calificar'', aprobado = False, color = ''warning''\<rparr>
   \<and> (jge x (Fin 61) \<longrightarrow> determinarEstadoAprobacion (Num x) =
     \<lparr>codigo = ''APROBADO'', descripcion = ''Aprobado'', aprobado = True, color = ''success''\<rparr>)
   \<and> (jlt x (Fin 61) \<longrightarrow> determinarEstadoAprobacion (Num x) =
     \<lparr>codigo = ''REPROBADO'', descripcion = ''Reprobado'', aprobado = False, color = ''danger''\<rparr>)
   \<and> codigo (determinarEstadoAprobacion (Num (Fin 61))) = ''APROBADO''
   \<and> codigo (determinarEstadoAprobacion (Num (round_double (6099 / 100)))) = ''REPROBADO''"
proof -
  have "jlt x (Fin 61) \<Longrightarrow> \<not> jge x (Fin 61)"
    by (cases x) (auto simp: jge_def jle_def jeq_def)
  then show ?thesis
    by (auto simp: determinarEstadoAprobacion_def rd_6099 jge_def)
qed

theorem approval_threshold_witness:
  "jge (Fin 75) (Fin 61) \<and> jlt (Fin 40) (Fin 61)
   \<and> aprobado (determinarEstadoAprobacion (Num (Fin 75)))
   \<and> \<not> aprobado (determinarEstadoAprobacion (Num (Fin 40)))"
  using approval_threshold[of "Fin 75"] approval_threshold[of "Fin 40"]
  by (simp add: jge_def)

section \<open>The progression evaluator\<close>

text \<open>
  Claim C4. For every semester group (an array has fewer than \<open>2 ^ 32\<close> elements),
  one turn of the loop of \<open>_validarProgresionAcademica\<close> adds the low-load alert exactly
  when the sum of the credits of the courses of the semester is below 12, then the
  failed-courses alert exactly when at least one course of the semester has a final grade
  and is not validated, then the low-approval alert exactly when the semester has a course
  and the validated courses are fewer than three quarters of its courses. When the credits
  are whole numbers the credit total is their exact sum. The alerts of the result are the
  alerts of the semesters in order, the counter of semesters with failures counts the
  semesters that have a failed course, and each alert is the descriptive label of its
  semester, a colon, and a text that gives the credit total, the number of failed
  courses, or the percentage of validated courses.
\<close>

theorem progression_alerts:
  "(length (cursos sem) < 2 ^ 32 \<longrightarrow>
      alertasSemestre h sem =
        (if jlt (fsum (map (\<lambda>c. creditos (curso c)) (cursos sem))) (Fin 12)
         then [alertaCarga h sem] else []) @
        (if 0 < length (filter (\<lambda>c. notaFinal c \<noteq> Null \<and> \<not> validado c) (cursos sem))
         then [alertaReprobados h sem] else []) @
        (if 0 < length (cursos sem) \<and>
            4 * length (filter validado (cursos sem)) < 3 * length (cursos sem)
         then [alertaPorcentaje h sem] else []))
   \<and> (map (\<lambda>c. creditos (curso c)) (cursos sem) = map of_count cr \<and> sum_list cr < 2 ^ 53 \<longrightarrow>
        (jlt (fsum (map (\<lambda>c. creditos (curso c)) (cursos sem))) (Fin 12) \<longleftrightarrow> sum_list cr < 12))
   \<and> alertas (validarProgresionAcademica h sems) = concat (map (alertasSemestre h) sems)
   \<and> semestresConReprobados (validarProgresionAcademica h sems) =
        length (filter (\<lambda>s. 0 < length (filter (\<lambda>c. notaFinal c \<noteq> Null \<and> \<not> validado c)
                                          (cursos s))) sems)
   \<and> alertaCarga h sem =
        descripcion (semestre sem) @ '': '' @ textoCargaBaja @ '' ('' @
        numberToString h (fsum (map (\<lambda>c. creditos (curso c)) (cursos sem))) @
        '' cr'' @ [e_acute] @ ''ditos)''
   \<and> alertaReprobados h sem =
        descripcion (semestre sem) @ '': '' @
        numberToString h
          (of_count (length (filter (\<lambda>c. notaFinal c \<noteq> Null \<and> \<not> validado c) (cursos sem)))) @
        '' curso(s) reprobado(s)''
   \<and> (0 < length (cursos sem) \<longrightarrow>
        alertaPorcentaje h sem =
          descripcion (semestre sem) @ '': '' @ textoBajoPorcentaje @ '' de aprobaci'' @
          [o_acute] @ ''n ('' @
          formatearNumero h
            (jmul (jdiv (of_count (length (filter validado (cursos sem))))
                        (of_count (length (cursos sem)))) (Fin 100)) 1 @ ''%)'')
   \<and> take (length (descripcion (semestre sem)) + 2) (alertaCarga h sem) =
        descripcion (semestre sem) @ '': ''
   \<and> take (length (descripcion (semestre sem)) + 2) (alertaReprobados h sem) =
        descripcion (semestre sem) @ '': ''
   \<and> take (length (descripcion (semestre sem)) + 2) (alertaPorcentaje h sem) =
        descripcion (semestre sem) @ '': ''"
proof -
  have c: "creditosSemestre sem = fsum (map (\<lambda>c. creditos (curso c)) (cursos sem))"
    by (simp add: creditosSemestre_def sumaCreditos_fsum)
  have 1: "jlt (fsum (map (\<lambda>c. creditos (curso c)) (cursos sem))) (Fin 12) \<longleftrightarrow> sum_list cr < 12"
    if "map (\<lambda>c. creditos (curso c)) (cursos sem) = map of_count cr" "sum_list cr < 2 ^ 53"
    using sumaCreditos_nat[OF that] by (simp add: c[symmetric] creditosSemestre_def of_count_def)
  have 2: "alertasSemestre h sem =
        (if jlt (fsum (map (\<lambda>c. creditos (curso c)) (cursos sem))) (Fin 12)
         then [alertaCarga h sem] else []) @
        (if 0 < length (filter (\<lambda>c. notaFinal c \<noteq> Null \<and> \<not> validado c) (cursos sem))
         then [alertaReprobados h sem] else []) @
        (if 0 < length (cursos sem) \<and>
            4 * length (filter validado (cursos sem)) < 3 * length (cursos sem)
         then [alertaPorcentaje h sem] else [])"
    if "length (cursos sem) < 2 ^ 32"
    using alertasSemestre_eq[OF that, of h]
    by (simp only: c cursosReprobadosSemestre_def cursosAprobadosSemestre_def)
  have 3: "semestresConReprobados (validarProgresionAcademica h sems) =
        length (filter (\<lambda>s. 0 < length (filter (\<lambda>c. notaFinal c \<noteq> Null \<and> \<not> validado c)
                                          (cursos s))) sems)"
    using validar_conReprobados[of h sems] by (simp only: cursosReprobadosSemestre_def)
  show ?thesis
    using 1 2 3 validar_alertas[of h sems]
    by (simp add: alertaCarga_def alertaReprobados_def alertaPorcentaje_def c
        cursosReprobadosSemestre_def cursosAprobadosSemestre_def porcentajeAprobacion_def)
qed

theorem progression_alerts_witness:
  "\<forall>h. length (cursos (semestreEjemplo ''2024-1'' [cursoEjemplo 4 50, cursoEjemplo 3 70])) < 2 ^ 32
     \<and> map (\<lambda>c. creditos (curso c))
           (cursos (semestreEjemplo ''2024-1'' [cursoEjemplo 4 50, cursoEjemplo 3 70])) =
         map of_count [4, 3]
     \<and> sum_list [4, 3 :: nat] < 2 ^ 53
     \<and> alertasSemestre h (semestreEjemplo ''2024-1'' [cursoEjemplo 4 50, cursoEjemplo 3 70]) =
         [alertaCarga h (semestreEjemplo ''2024-1'' [cursoEjemplo 4 50, cursoEjemplo 3 70]),
          alertaReprobados h (semestreEjemplo ''2024-1'' [cursoEjemplo 4 50, cursoEjemplo 3 70]),
          alertaPorcentaje h (semestreEjemplo ''2024-1'' [cursoEjemplo 4 50, cursoEjemplo 3 70])]
     \<and> jlt (fsum (map (\<lambda>c. creditos (curso c)) (cursos (semestreEjemplo ''2024-1'' [cursoEjemplo 4 50, cursoEjemplo 3 70]))))
           (Fin 12)
     \<and> length (filter (\<lambda>c. notaFinal c \<noteq> Null \<and> \<not> validado c)
           (cursos (semestreEjemplo ''2024-1'' [cursoEjemplo 4 50, cursoEjemplo 3 70]))) = 1
     \<and> length (filter validado (cursos (semestreEjemplo ''2024-1'' [cursoEjemplo 4 50, cursoEjemplo 3 70]))) = 1"
proof
  fix h
  show "length (cursos (semestreEjemplo ''2024-1'' [cursoEjemplo 4 50, cursoEjemplo 3 70])) < 2 ^ 32
     \<and> map (\<lambda>c. creditos (curso c))
           (cursos (semestreEjemplo ''2024-1'' [cursoEjemplo 4 50, cursoEjemplo 3 70])) =
         map of_count [4, 3]
     \<and> sum_list [4, 3 :: nat] < 2 ^ 53
     \<and> alertasSemestre h (semestreEjemplo ''2024-1'' [cursoEjemplo 4 50, cursoEjemplo 3 70]) =
         [alertaCarga h (semestreEjemplo ''2024-1'' [cursoEjemplo 4 50, cursoEjemplo 3 70]),
          alertaReprobados h (semestreEjemplo ''2024-1'' [cursoEjemplo 4 50, cursoEjemplo 3 70]),
          alertaPorcentaje h (semestreEjemplo ''2024-1'' [cursoEjemplo 4 50, cursoEjemplo 3 70])]
     \<and> jlt (fsum (map (\<lambda>c. creditos (curso c)) (cursos (semestreEjemplo ''2024-1'' [cursoEjemplo 4 50, cursoEjemplo 3 70]))))
           (Fin 12)
     \<and> length (filter (\<lambda>c. notaFinal c \<noteq> Null \<and> \<not> validado c)
           (cursos (semestreEjemplo ''2024-1'' [cursoEjemplo 4 50, cursoEjemplo 3 70]))) = 1
     \<and> length (filter validado (cursos (semestreEjemplo ''2024-1'' [cursoEjemplo 4 50, cursoEjemplo 3 70]))) = 1"
    using progression_alerts[of "semestreEjemplo ''2024-1'' [cursoEjemplo 4 50, cursoEjemplo 3 70]"
        h "[4, 3]" "[]"]
    by (simp add: semestreEjemplo_def cursoEjemplo_def of_count_def fsum_def)
qed

lemma length_concat_ones:
  "(\<forall>s \<in> set xs. length (f s) = 1) \<Longrightarrow> length (concat (map f xs)) = length xs"
  by (induction xs) simp_all

text \<open>
  Claim C5. The level is \<open>EXCELENTE\<close> for no alert, \<open>BUENA\<close> for one or two,
  \<open>REGULAR\<close> for three or four and \<open>DEFICIENTE\<close> for five or more, counted over
  the alerts of all semesters; attention is required exactly when there are more than two
  alerts. Five semesters with one alert each give \<open>DEFICIENTE\<close> and require attention.
\<close>

theorem progression_tier:
  "nivel (validarProgresionAcademica h sems) =
     (if length (alertas (validarProgresionAcademica h sems)) = 0 then ''EXCELENTE''
      else if length (alertas (validarProgresionAcademica h sems)) \<le> 2 then ''BUENA''
      else if length (alertas (validarProgresionAcademica h sems)) \<le> 4 then ''REGULAR''
      else ''DEFICIENTE'')
   \<and> requiereAtencion (validarProgresionAcademica h sems) =
       (2 < length (alertas (validarProgresionAcademica h sems)))
   \<and> length (alertas (validarProgresionAcademica h sems)) =
       sum_list (map (\<lambda>s. length (alertasSemestre h s)) sems)
   \<and> (length sems = 5 \<and> (\<forall>s \<in> set sems. length (alertasSemestre h s) = 1) \<longrightarrow>
        nivel (validarProgresionAcademica h sems) = ''DEFICIENTE'' \<and>
        requiereAtencion (validarProgresionAcademica h sems))"
proof -
  have a: "alertas (validarProgresionAcademica h sems) = alertas (foldl (revisarSemestre h)
      \<lparr>alertas = [], semestresBajoCursos = 0, semestresConReprobados = 0\<rparr> sems)"
    by (simp add: validarProgresionAcademica_def Let_def)
  have 1: "nivel (validarProgresionAcademica h sems) =
     (if length (alertas (validarProgresionAcademica h sems)) = 0 then ''EXCELENTE''
      else if length (alertas (validarProgresionAcademica h sems)) \<le> 2 then ''BUENA''
      else if length (alertas (validarProgresionAcademica h sems)) \<le> 4 then ''REGULAR''
      else ''DEFICIENTE'')"
    unfolding a by (simp add: validarProgresionAcademica_def Let_def)
  have 2: "requiereAtencion (validarProgresionAcademica h sems) =
       (2 < length (alertas (validarProgresionAcademica h sems)))"
    unfolding a by (simp add: validarProgresionAcademica_def Let_def)
  have 3: "length (alertas (validarProgresionAcademica h sems)) =
       sum_list (map (\<lambda>s. length (alertasSemestre h s)) sems)"
    by (simp add: validar_alertas length_concat comp_def)
  have 4: "length (alertas (validarProgresionAcademica h sems)) = 5"
    if "length sems = 5" "\<forall>s \<in> set sems. length (alertasSemestre h s) = 1"
    using length_concat_ones[OF that(2)] that(1) by (simp add: validar_alertas)
  have 5: "length sems = 5 \<and> (\<forall>s \<in> set sems. length (alertasSemestre h s) = 1) \<longrightarrow>
        nivel (validarProgresionAcademica h sems) = ''DEFICIENTE'' \<and>
        requiereAtencion (validarProgresionAcademica h sems)"
  proof (intro impI, elim conjE)
    assume "length sems = 5" "\<forall>s \<in> set sems. length (alertasSemestre h s) = 1"
    then have n5: "length (alertas (validarProgresionAcademica h sems)) = 5" by (rule 4)
    show "nivel (validarProgresionAcademica h sems) = ''DEFICIENTE'' \<and>
        requiereAtencion (validarProgresionAcademica h sems)"
      unfolding 1 2 n5 by simp
  qed
  show ?thesis by (intro conjI) (rule 1, rule 2, rule 3, rule 5)
qed

theorem progression_tier_witness:
  "\<forall>h. length (replicate 5 (semestreEjemplo ''2024-1'' [cursoEjemplo 3 70])) = 5
     \<and> list_all (\<lambda>s. length (alertasSemestre h s) = 1)
          (replicate 5 (semestreEjemplo ''2024-1'' [cursoEjemplo 3 70]))
     \<and> nivel (validarProgresionAcademica h
          (replicate 5 (semestreEjemplo ''2024-1'' [cursoEjemplo 3 70]))) = ''DEFICIENTE''
     \<and> requiereAtencion (validarProgresionAcademica h
          (replicate 5 (semestreEjemplo ''2024-1'' [cursoEjemplo 3 70])))"
proof
  fix h
  have one: "length (alertasSemestre h (semestreEjemplo ''2024-1'' [cursoEjemplo 3 70])) = 1"
    using alertasSemestre_eq[of "semestreEjemplo ''2024-1'' [cursoEjemplo 3 70]" h]
    by (simp add: semestreEjemplo_def cursoEjemplo_def creditosSemestre_def sumaCreditos_def
        cursosReprobadosSemestre_def cursosAprobadosSemestre_def)
  let ?R = "replicate 5 (semestreEjemplo ''2024-1'' [cursoEjemplo 3 70])"
  have l: "length ?R = 5" by simp
  have a: "\<forall>s \<in> set ?R. length (alertasSemestre h s) = 1" using one by simp
  from progression_tier[of h ?R] l a
  have "nivel (validarProgresionAcademica h ?R) = ''DEFICIENTE'' \<and>
        requiereAtencion (validarProgresionAcademica h ?R)" by blast
  with l a show "length ?R = 5
     \<and> list_all (\<lambda>s. length (alertasSemestre h s) = 1) ?R
     \<and> nivel (validarProgresionAcademica h ?R) = ''DEFICIENTE''
     \<and> requiereAtencion (validarProgresionAcademica h ?R)"
    by (simp only: list_all_iff simp_thms)
qed

lemma includes_str_mid: "includes_str (a @ t @ b) t"
proof (induction a)
  case Nil
  show ?case
  proof (cases "t @ b")
    case Nil
    then show ?thesis by simp
  next
    case (Cons x xs)
    have "take (length t) (t @ b) = t" by simp
    then show ?thesis using Cons by (metis append_Nil includes_str.simps(2))
  qed
next
  case (Cons x a)
  then show ?case by simp
qed

lemma alertaCarga_includes: "includes_str (alertaCarga h sem) textoCargaBaja"
  using includes_str_mid[of "descripcion (semestre sem) @ '': ''" textoCargaBaja]
  by (simp add: alertaCarga_def)

lemma alertaPorcentaje_includes: "includes_str (alertaPorcentaje h sem) textoBajoPorcentaje"
  using includes_str_mid[of "descripcion (semestre sem) @ '': ''" textoBajoPorcentaje]
  by (simp add: alertaPorcentaje_def)

lemma alertaCarga_mem:
  "jlt (creditosSemestre sem) (Fin 12) \<Longrightarrow> alertaCarga h sem \<in> set (alertasSemestre h sem)"
  by (simp add: alertasSemestre_def revisarSemestre_def Let_def)

lemma alertaPorcentaje_mem:
  "jlt (porcentajeAprobacion sem) (Fin 75) \<Longrightarrow> 0 < length (cursos sem) \<Longrightarrow>
   alertaPorcentaje h sem \<in> set (alertasSemestre h sem)"
  by (simp add: alertasSemestre_def revisarSemestre_def Let_def)

lemma sin_alertas_sin_reprobados:
  "alertasSemestre h sem = [] \<Longrightarrow> cursosReprobadosSemestre sem = 0"
  by (simp add: alertasSemestre_def revisarSemestre_def Let_def split: if_splits)

lemma generar_eq:
  "generarRecomendaciones als n =
     (if (if 0 < n then [recRepetir, recTutoria] else []) @
         (if list_ex (\<lambda>a. includes_str a textoCargaBaja) als then [recCarga] else []) @
         (if list_ex (\<lambda>a. includes_str a textoBajoPorcentaje) als then [recMetodos, recApoyo]
          else []) = []
      then [recMantener, recExtra]
      else (if 0 < n then [recRepetir, recTutoria] else []) @
         (if list_ex (\<lambda>a. includes_str a textoCargaBaja) als then [recCarga] else []) @
         (if list_ex (\<lambda>a. includes_str a textoBajoPorcentaje) als then [recMetodos, recApoyo]
          else []))"
  by (simp add: generarRecomendaciones_def Let_def)

lemma validar_recomendaciones:
  "recomendaciones (validarProgresionAcademica h sems) =
     generarRecomendaciones (alertas (validarProgresionAcademica h sems))
       (semestresConReprobados (validarProgresionAcademica h sems))"
  by (simp add: validarProgresionAcademica_def Let_def)

text \<open>
  Claim C10. The list of recommendations is never empty. \<open>_generarRecomendaciones\<close>
  gives the two recommendations on failed courses when some semester had failures, then
  the one on the course load when an alert has the low-load text, then the two on study
  methods and support when an alert has the low-approval text, and the two recommendations
  of positive reinforcement when none of these applies. In the result of the evaluator,
  a semester with failed courses, with a low load or with a low approval percentage brings
  the recommendations of its category, and a result without alerts has the two of positive
  reinforcement.
\<close>

theorem recommendations_nonempty:
  "generarRecomendaciones als n \<noteq> []
   \<and> generarRecomendaciones als n =
     (if (if 0 < n then [recRepetir, recTutoria] else []) @
         (if list_ex (\<lambda>a. includes_str a textoCargaBaja) als then [recCarga] else []) @
         (if list_ex (\<lambda>a. includes_str a textoBajoPorcentaje) als then [recMetodos, recApoyo]
          else []) = []
      then [recMantener, recExtra]
      else (if 0 < n then [recRepetir, recTutoria] else []) @
         (if list_ex (\<lambda>a. includes_str a textoCargaBaja) als then [recCarga] else []) @
         (if list_ex (\<lambda>a. includes_str a textoBajoPorcentaje) als then [recMetodos, recApoyo]
          else []))
   \<and> recomendaciones (validarProgresionAcademica h sems) \<noteq> []
   \<and> (s \<in> set sems \<and> 0 < cursosReprobadosSemestre s \<longrightarrow>
        recRepetir \<in> set (recomendaciones (validarProgresionAcademica h sems)) \<and>
        recTutoria \<in> set (recomendaciones (validarProgresionAcademica h sems)))
   \<and> (s \<in> set sems \<and> jlt (creditosSemestre s) (Fin 12) \<longrightarrow>
        recCarga \<in> set (recomendaciones (validarProgresionAcademica h sems)))
   \<and> (s \<in> set sems \<and> jlt (porcentajeAprobacion s) (Fin 75) \<and> 0 < length (cursos s) \<longrightarrow>
        recMetodos \<in> set (recomendaciones (validarProgresionAcademica h sems)) \<and>
        recApoyo \<in> set (recomendaciones (validarProgresionAcademica h sems)))
   \<and> (alertas (validarProgresionAcademica h sems) = [] \<longrightarrow>
        recomendaciones (validarProgresionAcademica h sems) = [recMantener, recExtra])"
proof -
  let ?r = "validarProgresionAcademica h sems"
  have ne: "generarRecomendaciones als n \<noteq> []" for als n
    by (simp add: generar_eq)
  have 3: "recomendaciones ?r \<noteq> []" unfolding validar_recomendaciones by (rule ne)
  have 4: "recRepetir \<in> set (recomendaciones ?r) \<and> recTutoria \<in> set (recomendaciones ?r)"
    if "s \<in> set sems" "0 < cursosReprobadosSemestre s"
  proof -
    have "filter (\<lambda>s. 0 < cursosReprobadosSemestre s) sems \<noteq> []"
      using that by (auto simp: filter_empty_conv)
    then have "0 < semestresConReprobados ?r" by (simp add: validar_conReprobados)
    then show ?thesis unfolding validar_recomendaciones by (simp add: generar_eq)
  qed
  have 5: "recCarga \<in> set (recomendaciones ?r)" if "s \<in> set sems" "jlt (creditosSemestre s) (Fin 12)"
  proof -
    have "alertaCarga h s \<in> set (alertas ?r)"
      using that alertaCarga_mem[of s h] by (auto simp: validar_alertas)
    then have "list_ex (\<lambda>a. includes_str a textoCargaBaja) (alertas ?r)"
      using alertaCarga_includes[of h s] by (auto simp: list_ex_iff)
    then show ?thesis unfolding validar_recomendaciones by (simp add: generar_eq)
  qed
  have 6: "recMetodos \<in> set (recomendaciones ?r) \<and> recApoyo \<in> set (recomendaciones ?r)"
    if "s \<in> set sems" "jlt (porcentajeAprobacion s) (Fin 75)" "0 < length (cursos s)"
  proof -
    have "alertaPorcentaje h s \<in> set (alertas ?r)"
      using that alertaPorcentaje_mem[of s h] by (auto simp: validar_alertas)
    then have "list_ex (\<lambda>a. includes_str a textoBajoPorcentaje) (alertas ?r)"
      using alertaPorcentaje_includes[of h s] by (auto simp: list_ex_iff)
    then show ?thesis unfolding validar_recomendaciones by (simp add: generar_eq)
  qed
  have 7: "recomendaciones ?r = [recMantener, recExtra]" if "alertas ?r = []"
  proof -
    have "\<forall>s \<in> set sems. alertasSemestre h s = []" using that by (simp add: validar_alertas)
    then have "filter (\<lambda>s. 0 < cursosReprobadosSemestre s) sems = []"
      using sin_alertas_sin_reprobados[of h] by (auto simp: filter_empty_conv)
    then have "semestresConReprobados ?r = 0" by (simp add: validar_conReprobados)
    then show ?thesis unfolding validar_recomendaciones using that by (simp add: generar_eq)
  qed
  show ?thesis using ne[of als n] generar_eq[of als n] 3 4 5 6 7 by blast
qed

theorem recommendations_nonempty_witness:
  "\<forall>h. semestreEjemplo ''2024-1'' [cursoEjemplo 4 50, cursoEjemplo 3 70]
        \<in> set [semestreEjemplo ''2024-1'' [cursoEjemplo 4 50, cursoEjemplo 3 70]]
     \<and> 0 < cursosReprobadosSemestre (semestreEjemplo ''2024-1'' [cursoEjemplo 4 50, cursoEjemplo 3 70])
     \<and> jlt (creditosSemestre (semestreEjemplo ''2024-1'' [cursoEjemplo 4 50, cursoEjemplo 3 70])) (Fin 12)
     \<and> jlt (porcentajeAprobacion (semestreEjemplo ''2024-1'' [cursoEjemplo 4 50, cursoEjemplo 3 70])) (Fin 75)
     \<and> 0 < length (cursos (semestreEjemplo ''2024-1'' [cursoEjemplo 4 50, cursoEjemplo 3 70]))
     \<and> set (recomendaciones (validarProgresionAcademica h
          [semestreEjemplo ''2024-1'' [cursoEjemplo 4 50, cursoEjemplo 3 70]])) =
        {recRepetir, recTutoria, recCarga, recMetodos, recApoyo}
     \<and> alertas (validarProgresionAcademica h []) = []
     \<and> recomendaciones (validarProgresionAcademica h []) = [recMantener, recExtra]"
proof
  fix h
  let ?s = "semestreEjemplo ''2024-1'' [cursoEjemplo 4 50, cursoEjemplo 3 70]"
  have a: "?s \<in> set [?s]" by simp
  have b: "0 < cursosReprobadosSemestre ?s"
    by (simp add: semestreEjemplo_def cursoEjemplo_def cursosReprobadosSemestre_def)
  have c: "jlt (creditosSemestre ?s) (Fin 12)"
    by (simp add: semestreEjemplo_def cursoEjemplo_def creditosSemestre_def sumaCreditos_def)
  have d: "jlt (porcentajeAprobacion ?s) (Fin 75)"
    using pct_lt_75[of "Suc (Suc 0)" "Suc 0"]
    by (simp add: semestreEjemplo_def cursoEjemplo_def porcentajeAprobacion_def
        cursosAprobadosSemestre_def)
  have e: "0 < length (cursos ?s)" by (simp add: semestreEjemplo_def)
  have f: "alertas (validarProgresionAcademica h []) = []"
    by (simp add: validarProgresionAcademica_def)
  from recommendations_nonempty[of "[]" 0 h "[?s]" ?s] a b c d e
  have g: "{recRepetir, recTutoria, recCarga, recMetodos, recApoyo}
      \<subseteq> set (recomendaciones (validarProgresionAcademica h [?s]))" by blast
  have "set (generarRecomendaciones als n) \<subseteq> {recRepetir, recTutoria, recCarga, recMetodos, recApoyo}"
    if "0 < n" for als n using that by (auto simp: generar_eq)
  then have g': "set (recomendaciones (validarProgresionAcademica h [?s]))
      \<subseteq> {recRepetir, recTutoria, recCarga, recMetodos, recApoyo}"
    using b by (simp add: validar_recomendaciones validar_conReprobados)
  from recommendations_nonempty[of "[]" 0 h "[]" ?s] f
  have i: "recomendaciones (validarProgresionAcademica h []) = [recMantener, recExtra]" by blast
  show "?s \<in> set [?s] \<and> 0 < cursosReprobadosSemestre ?s \<and> jlt (creditosSemestre ?s) (Fin 12)
     \<and> jlt (porcentajeAprobacion ?s) (Fin 75) \<and> 0 < length (cursos ?s)
     \<and> set (recomendaciones (validarProgresionAcademica h [?s])) =
        {recRepetir, recTutoria, recCarga, recMetodos, recApoyo}
     \<and> alertas (validarProgresionAcademica h []) = []
     \<and> recomendaciones (validarProgresionAcademica h []) = [recMantener, recExtra]"
    using a b c d e f g g' i by blast
qed

section \<open>Invalid input of the per-semester retrieval\<close>

text \<open>
  Claim C9. When the student id, the year or the term number is missing (\<open>null\<close>,
  \<open>undefined\<close> or another falsy value), \<open>obtenerCalificacionesPorSemestre\<close> answers with a
  failure whose message names the required parameters, and when the term number is
  neither 1 nor 2 it answers with a failure whose message says so; in both cases no query
  is sent to the data-access collaborator. A semester that is not found gives a failure
  naming the semester, after the semester query alone; a student that is not found gives
  the failure \<open>Estudiante no encontrado\<close>, after the semester and student queries alone.
  The four messages differ from one another.
\<close>

theorem input_errors:
  "falsy JNull \<and> falsy JUndefined
   \<and> (falsy idEstudiante \<or> falsy anio \<or> falsy numeroSemestre \<longrightarrow>
        obtenerCalificacionesPorSemestre h d idEstudiante anio numeroSemestre =
          (Fallo mensajeParametros, []))
   \<and> (\<not> falsy idEstudiante \<and> \<not> falsy anio \<and> \<not> falsy numeroSemestre \<and>
        numeroSemestre \<noteq> JNum (Fin 1) \<and> numeroSemestre \<noteq> JNum (Fin 2) \<longrightarrow>
        obtenerCalificacionesPorSemestre h d idEstudiante anio numeroSemestre =
          (Fallo mensajeNumero, []))
   \<and> (\<not> falsy idEstudiante \<and> \<not> falsy anio \<and>
        (numeroSemestre = JNum (Fin 1) \<or> numeroSemestre = JNum (Fin 2)) \<and>
        semestreFindOne d anio numeroSemestre = Inr None \<longrightarrow>
        obtenerCalificacionesPorSemestre h d idEstudiante anio numeroSemestre =
          (Fallo (mensajeSemestre h numeroSemestre anio), [SemestreFindOne anio numeroSemestre]))
   \<and> (\<not> falsy idEstudiante \<and> \<not> falsy anio \<and>
        (numeroSemestre = JNum (Fin 1) \<or> numeroSemestre = JNum (Fin 2)) \<and>
        semestreFindOne d anio numeroSemestre = Inr (Some idSemestre) \<and>
        estudianteFindByPk d idEstudiante = Inr None \<longrightarrow>
        obtenerCalificacionesPorSemestre h d idEstudiante anio numeroSemestre =
          (Fallo ''Estudiante no encontrado'',
           [SemestreFindOne anio numeroSemestre, EstudianteFindByPk idEstudiante]))
   \<and> mensajeParametros \<noteq> mensajeNumero
   \<and> mensajeParametros \<noteq> ''Estudiante no encontrado''
   \<and> mensajeNumero \<noteq> ''Estudiante no encontrado''
   \<and> mensajeSemestre h numeroSemestre anio \<noteq> mensajeParametros
   \<and> mensajeSemestre h numeroSemestre anio \<noteq> mensajeNumero
   \<and> mensajeSemestre h numeroSemestre anio \<noteq> ''Estudiante no encontrado''"
  by (auto simp: obtenerCalificacionesPorSemestre_def mensajeParametros_def mensajeNumero_def
      mensajeSemestre_def)

theorem input_errors_witness:
  "\<forall>h. falsy JUndefined
     \<and> obtenerCalificacionesPorSemestre h
         \<lparr>semestreFindOne = (\<lambda>a n. Inr None), estudianteFindByPk = (\<lambda>i. Inr None),
          inscripcionFindAll = (\<lambda>i s. Inr [])\<rparr>
         JUndefined (JNum (Fin 2024)) (JNum (Fin 1)) = (Fallo mensajeParametros, [])
     \<and> \<not> falsy (JNum (Fin 7)) \<and> \<not> falsy (JNum (Fin 2024)) \<and> \<not> falsy (JNum (Fin 3))
     \<and> JNum (Fin 3) \<noteq> JNum (Fin 1) \<and> JNum (Fin 3) \<noteq> JNum (Fin 2)
     \<and> obtenerCalificacionesPorSemestre h
         \<lparr>semestreFindOne = (\<lambda>a n. Inr None), estudianteFindByPk = (\<lambda>i. Inr None),
          inscripcionFindAll = (\<lambda>i s. Inr [])\<rparr>
         (JNum (Fin 7)) (JNum (Fin 2024)) (JNum (Fin 3)) = (Fallo mensajeNumero, [])
     \<and> obtenerCalificacionesPorSemestre h
         \<lparr>semestreFindOne = (\<lambda>a n. Inr None), estudianteFindByPk = (\<lambda>i. Inr None),
          inscripcionFindAll = (\<lambda>i s. Inr [])\<rparr>
         (JNum (Fin 7)) (JNum (Fin 2024)) (JNum (Fin 1)) =
           (Fallo (mensajeSemestre h (JNum (Fin 1)) (JNum (Fin 2024))),
            [SemestreFindOne (JNum (Fin 2024)) (JNum (Fin 1))])
     \<and> obtenerCalificacionesPorSemestre h
         \<lparr>semestreFindOne = (\<lambda>a n. Inr (Some (JNum (Fin 5)))),
          estudianteFindByPk = (\<lambda>i. Inr None), inscripcionFindAll = (\<lambda>i s. Inr [])\<rparr>
         (JNum (Fin 7)) (JNum (Fin 2024)) (JNum (Fin 1)) =
           (Fallo ''Estudiante no encontrado'',
            [SemestreFindOne (JNum (Fin 2024)) (JNum (Fin 1)), EstudianteFindByPk (JNum (Fin 7))])"
proof
  fix h
  let ?d0 = "\<lparr>semestreFindOne = (\<lambda>a n. Inr None), estudianteFindByPk = (\<lambda>i. Inr None),
          inscripcionFindAll = (\<lambda>i s. Inr [])\<rparr>"
  let ?d1 = "\<lparr>semestreFindOne = (\<lambda>a n. Inr (Some (JNum (Fin 5)))),
          estudianteFindByPk = (\<lambda>i. Inr None), inscripcionFindAll = (\<lambda>i s. Inr [])\<rparr>"
  show "falsy JUndefined
     \<and> obtenerCalificacionesPorSemestre h ?d0
         JUndefined (JNum (Fin 2024)) (JNum (Fin 1)) = (Fallo mensajeParametros, [])
     \<and> \<not> falsy (JNum (Fin 7)) \<and> \<not> falsy (JNum (Fin 2024)) \<and> \<not> falsy (JNum (Fin 3))
     \<and> JNum (Fin 3) \<noteq> JNum (Fin 1) \<and> JNum (Fin 3) \<noteq> JNum (Fin 2)
     \<and> obtenerCalificacionesPorSemestre h ?d0
         (JNum (Fin 7)) (JNum (Fin 2024)) (JNum (Fin 3)) = (Fallo mensajeNumero, [])
     \<and> obtenerCalificacionesPorSemestre h ?d0
         (JNum (Fin 7)) (JNum (Fin 2024)) (JNum (Fin 1)) =
           (Fallo (mensajeSemestre h (JNum (Fin 1)) (JNum (Fin 2024))),
            [SemestreFindOne (JNum (Fin 2024)) (JNum (Fin 1))])
     \<and> obtenerCalificacionesPorSemestre h ?d1
         (JNum (Fin 7)) (JNum (Fin 2024)) (JNum (Fin 1)) =
           (Fallo ''Estudiante no encontrado'',
            [SemestreFindOne (JNum (Fin 2024)) (JNum (Fin 1)), EstudianteFindByPk (JNum (Fin 7))])"
    using input_errors[of JUndefined "JNum (Fin 2024)" "JNum (Fin 1)" h ?d0]
      input_errors[of "JNum (Fin 7)" "JNum (Fin 2024)" "JNum (Fin 3)" h ?d0]
      input_errors[of "JNum (Fin 7)" "JNum (Fin 2024)" "JNum (Fin 1)" h ?d0]
      input_errors[of "JNum (Fin 7)" "JNum (Fin 2024)" "JNum (Fin 1)" h ?d1 "JNum (Fin 5)"]
    by simp
qed

section \<open>The grade calculator\<close>

lemma rd_tie:
  assumes "2 powi (k + 52) \<le> q" "q < 2 powi (k + 53)" "- 1074 \<le> k" "k \<le> 970"
    and "q / 2 powi k = of_int f + 1 / 2"
  shows "round_double q = Fin (of_int (if even f then f else f + 1) * 2 powi k)"
  using rd_cert[OF assms(1-4) rne_tie[OF assms(5)]] .

lemma math_round_cert:
  "of_int n \<le> q + 1 / 2 \<Longrightarrow> q + 1 / 2 < of_int n + 1 \<Longrightarrow> math_round (Fin q) = Fin (of_int n)"
  by (simp add: floor_unique)

lemma calcular_redondear:
  assumes "filter tieneNota cals \<noteq> []" "\<not> jeq (snd (sumas (filter tieneNota cals))) (Fin 0)"
  shows "calcularNotaFinal (Some cals) = Num (redondear2 (notaProporcional cals))"
proof -
  have "cals \<noteq> []" using assms(1) by auto
  then show ?thesis using assms
    by (simp add: calcularNotaFinal_def Let_def redondear2_def notaProporcional_def)
qed

lemma foldl_acumular:
  "foldl acumular (s, w) cs =
     (foldl jadd s (map (\<lambda>e. jdiv (jmul (parseFloat (nota e)) (parseFloat (ponderacion e))) (Fin 100)) cs),
      foldl jadd w (map (\<lambda>e. parseFloat (ponderacion e)) cs))"
  by (induction cs arbitrary: s w) (simp_all add: acumular_def)

lemma sumas_eq:
  "sumas cs =
     (fsum (map (\<lambda>e. jdiv (jmul (parseFloat (nota e)) (parseFloat (ponderacion e))) (Fin 100)) cs),
      fsum (map (\<lambda>e. parseFloat (ponderacion e)) cs))"
  by (simp add: sumas_def fsum_def foldl_acumular)

lemma redondear2_boundary:
  assumes "odd m" "\<bar>25 * m\<bar> < 2 ^ 53"
  shows "redondear2 (Fin (of_int m / 8)) = round_double (of_int m / 8 + 1 / 200)"
proof -
  have d: "dyadic53 (of_int (25 * m) * 2 powi (- 1))"
    using assms(2) by (intro dyadic53I2[of _ "25 * m" "- 1"]) simp_all
  have e: "of_int m / 8 * (100::rat) = of_int (25 * m) * 2 powi (- 1)" by simp
  have 1: "jmul (Fin (of_int m / 8)) (Fin 100) = Fin (of_int (25 * m) * 2 powi (- 1))"
    using rd_exact[OF d] by (simp only: jmul.simps e)
  have "odd (25 * m)" using assms(1) by simp
  then obtain j where j: "25 * m = 2 * j + 1" by (elim oddE)
  have "of_int (25 * m) * 2 powi (- 1) + 1 / 2 = (of_int (j + 1) :: rat)"
    unfolding j by (simp add: field_simps)
  then have 2: "math_round (Fin (of_int (25 * m) * 2 powi (- 1))) = Fin (of_int (j + 1))"
    by (simp only: math_round.simps floor_of_int)
  have "(of_int (j + 1) :: rat) / 100 = of_int m / 8 + 1 / 200"
  proof -
    have "(of_int (2 * j + 1) :: rat) = of_int (25 * m)" using j by simp
    then have "(2 * of_int j + 1 :: rat) = 25 * of_int m" by simp
    then show ?thesis by (simp add: field_simps)
  qed
  then have 3: "jdiv (Fin (of_int (j + 1))) (Fin 100) = round_double (of_int m / 8 + 1 / 200)"
    by (simp only: jdiv.simps) simp
  show ?thesis unfolding redondear2_def 1 2 3 ..
qed

text \<open>
  Claim C6, as amended. The value before rounding is a binary64 number, and the result is
  \<open>Math.round\<close> of its product with 100, divided by 100. When that value lies exactly on a
  0.005 boundary (it is then an odd multiple of one eighth) and is below \<open>2 ^ 50 / 25\<close> in
  magnitude, the result is the number nearest to the next multiple of 0.01 above it. The
  number 85.555 rounds to 85.56, also as the grade of a single evaluation of weight 100.
\<close>

theorem rounding_half_up:
  "(filter tieneNota cals \<noteq> [] \<and> \<not> jeq (snd (sumas (filter tieneNota cals))) (Fin 0) \<and>
    notaProporcional cals = Fin (of_int m / 8) \<and> odd m \<and> \<bar>25 * m\<bar> < 2 ^ 53 \<longrightarrow>
      calcularNotaFinal (Some cals) = Num (round_double (of_int m / 8 + 1 / 200)))
   \<and> redondear2 (round_double (85555 / 1000)) = round_double (8556 / 100)
   \<and> calcularNotaFinal
        (Some [\<lparr>nota = JNum (round_double (85555 / 1000)), ponderacion = JNum (Fin 100)\<rparr>]) =
      Num (round_double (8556 / 100))"
proof -
  have 1: "redondear2 (round_double (85555 / 1000)) = round_double (8556 / 100)"
    using rd_near[of "-39" "37627486925750275 / 4398046511104" 4703435865718784]
      rd_near[of "-46" "17111 / 200" 6020397908120044]
      math_round_cert[of 8556 "17111 / 2"]
    by (simp add: redondear2_def)
  have 2: "calcularNotaFinal
        (Some [\<lparr>nota = JNum (round_double (85555 / 1000)), ponderacion = JNum (Fin 100)\<rparr>]) =
      Num (round_double (8556 / 100))"
    using rd_near[of "-39" "37627486925750275 / 4398046511104" 4703435865718784]
      rd_near[of "-46" "17111 / 200" 6020397908120044]
      rd_near[of "-46" "1505099477030011 / 17592186044416" 6020397908120044]
      math_round_cert[of 8556 "17111 / 2"]
    by (simp add: calcularNotaFinal_def sumas_def acumular_def tieneNota_def jeq_def)
  show ?thesis using 1 2 calcular_redondear[of cals] redondear2_boundary[of m] by simp
qed

theorem rounding_half_up_witness:
  "filter tieneNota [\<lparr>nota = JNum (Fin (1 / 8)), ponderacion = JNum (Fin 100)\<rparr>] \<noteq> []
   \<and> \<not> jeq (snd (sumas (filter tieneNota
            [\<lparr>nota = JNum (Fin (1 / 8)), ponderacion = JNum (Fin 100)\<rparr>]))) (Fin 0)
   \<and> notaProporcional [\<lparr>nota = JNum (Fin (1 / 8)), ponderacion = JNum (Fin 100)\<rparr>] =
        Fin (of_int 1 / 8)
   \<and> odd (1 :: int) \<and> \<bar>25 * 1 :: int\<bar> < 2 ^ 53
   \<and> calcularNotaFinal (Some [\<lparr>nota = JNum (Fin (1 / 8)), ponderacion = JNum (Fin 100)\<rparr>]) =
        Num (round_double (13 / 100))"
  using rounding_half_up[of "[\<lparr>nota = JNum (Fin (1 / 8)), ponderacion = JNum (Fin 100)\<rparr>]" 1]
    rd_near[of "-49" "25 / 2" 7036874417766400]
    rd_near[of "-55" "1 / 8" 4503599627370496]
  by (simp add: notaProporcional_def sumas_def acumular_def tieneNota_def jeq_def)

theorem rounding_half_up_counterexample:
  "notaProporcional [\<lparr>nota = JStr ''1.00'', ponderacion = JStr ''50.00''\<rparr>,
                     \<lparr>nota = JStr ''1.01'', ponderacion = JStr ''50.00''\<rparr>] =
     round_double (1005 / 1000)
   \<and> calcularNotaFinal (Some [\<lparr>nota = JStr ''1.00'', ponderacion = JStr ''50.00''\<rparr>,
                                \<lparr>nota = JStr ''1.01'', ponderacion = JStr ''50.00''\<rparr>]) =
       Num (Fin 1)
   \<and> notaProporcional [\<lparr>nota = JNum (Fin (360287970189641 / 8)), ponderacion = JNum (Fin 1)\<rparr>] =
       Fin (360287970189641 / 8)
   \<and> calcularNotaFinal
        (Some [\<lparr>nota = JNum (Fin (360287970189641 / 8)), ponderacion = JNum (Fin 1)\<rparr>]) =
       Num (Fin (5764607523034255 / 128))
   \<and> (5764607523034255 / 128 :: rat) < 360287970189641 / 8"
proof -
  have p: "parseFloatStr ''1.00'' = Fin 1" "parseFloatStr ''50.00'' = Fin 50"
    "parseFloatStr ''1.01'' = round_double (101 / 100)"
    by (simp_all add: parseFloatStr_def isWhite_def isDigit_def Let_def digitsVal_def exponentPart_def)
  have a: "round_double (101 / 100) = Fin (4548635623644201 / 2 ^ 52)"
    using rd_near[of "-52" "101 / 100" 4548635623644201] by simp
  have b: "round_double (1005 / 1000) = Fin (4526117625507348 / 2 ^ 52)"
    using rd_near[of "-52" "201 / 200" 4526117625507348] by simp
  have 1: "notaProporcional [\<lparr>nota = JStr ''1.00'', ponderacion = JStr ''50.00''\<rparr>,
                     \<lparr>nota = JStr ''1.01'', ponderacion = JStr ''50.00''\<rparr>] =
     round_double (1005 / 1000)"
    unfolding b
    using rd_near[of "-53" "1 / 2" 4503599627370496]
      rd_near[of "-47" "113715890591105025 / 2251799813685248" 7107243161944064]
      rd_near[of "-53" "101 / 200" 4548635623644201]
      rd_tie[of "-52" "9052235251014697 / 9007199254740992" 4526117625507348]
      rd_near[of "-46" "28288235159420925 / 281474976710656" 7072058789855231]
      rd_near[of "-52" "7072058789855231 / 7036874417766400" 4526117625507348]
    by (simp add: notaProporcional_def sumas_def acumular_def tieneNota_def p a)
  have 2: "calcularNotaFinal (Some [\<lparr>nota = JStr ''1.00'', ponderacion = JStr ''50.00''\<rparr>,
                                \<lparr>nota = JStr ''1.01'', ponderacion = JStr ''50.00''\<rparr>]) =
       Num (Fin 1)"
    using rd_near[of "-53" "1 / 2" 4503599627370496]
      rd_near[of "-47" "113715890591105025 / 2251799813685248" 7107243161944064]
      rd_near[of "-53" "101 / 200" 4548635623644201]
      rd_tie[of "-52" "9052235251014697 / 9007199254740992" 4526117625507348]
      rd_near[of "-46" "28288235159420925 / 281474976710656" 7072058789855231]
      rd_near[of "-52" "7072058789855231 / 7036874417766400" 4526117625507348]
      math_round_cert[of 100 "7072058789855231 / 70368744177664"]
    by (simp add: calcularNotaFinal_def sumas_def acumular_def tieneNota_def jeq_def p a)
  have 3: "notaProporcional [\<lparr>nota = JNum (Fin (360287970189641 / 8)), ponderacion = JNum (Fin 1)\<rparr>] =
       Fin (360287970189641 / 8)"
    using rd_near[of "-7" "360287970189641 / 8" 5764607523034256]
      rd_near[of "-14" "360287970189641 / 800" 7378697629483848]
      rd_near[of "-14" "922337203685481 / 2048" 7378697629483848]
      rd_near[of "-7" "23058430092137025 / 512" 5764607523034256]
    by (simp add: notaProporcional_def sumas_def acumular_def tieneNota_def)
  have 4: "calcularNotaFinal
        (Some [\<lparr>nota = JNum (Fin (360287970189641 / 8)), ponderacion = JNum (Fin 1)\<rparr>]) =
       Num (Fin (5764607523034255 / 128))"
    using rd_near[of "-7" "360287970189641 / 8" 5764607523034256]
      rd_near[of "-14" "360287970189641 / 800" 7378697629483848]
      rd_near[of "-14" "922337203685481 / 2048" 7378697629483848]
      rd_near[of "-7" "23058430092137025 / 512" 5764607523034256]
      rd_tie[of "0" "9007199254741025 / 2" 4503599627370512]
      rd_near[of "-7" "1125899906842628 / 25" 5764607523034255]
      math_round_cert[of 4503599627370512 4503599627370512]
    by (simp add: calcularNotaFinal_def sumas_def acumular_def tieneNota_def jeq_def)
  show ?thesis using 1 2 3 4 by simp
qed

lemma foldl_jadd_NaN [simp]: "foldl jadd NaN xs = NaN"
  by (induction xs) simp_all

lemma jadd_NaN_right [simp]: "jadd x NaN = NaN"
  by (cases x) simp_all

lemma jmul_NaN_right [simp]: "jmul x NaN = NaN"
  by (cases x) simp_all

lemma jdiv_NaN_right [simp]: "jdiv x NaN = NaN"
  by (cases x) simp_all

lemma foldl_jadd_mem_NaN: "NaN \<in> set xs \<Longrightarrow> foldl jadd a xs = NaN"
  by (induction xs arbitrary: a) auto

lemma fsum_mem_NaN: "NaN \<in> set xs \<Longrightarrow> fsum xs = NaN"
  by (simp add: fsum_def foldl_jadd_mem_NaN)

lemma redondear2_NaN [simp]: "redondear2 NaN = NaN"
  by (simp add: redondear2_def)

text \<open>
  Claim C7, as amended. \<open>_calcularNotaFinal\<close> applies \<open>parseFloat\<close> to the score and to
  the weight of every evaluation whose score is neither \<open>null\<close> nor \<open>undefined\<close>: a
  number is taken as it is and a numeric string is read as a decimal. An evaluation whose
  score or weight does not parse is not skipped: it makes the weighted sum \<open>NaN\<close>, and
  the result is \<open>NaN\<close>, or absent when the weight total is 0; when a weight does not
  parse the result is \<open>NaN\<close>. The function returns for every list.
\<close>

theorem unparseable_values:
  "(cal \<in> set cals \<and> tieneNota cal \<and>
      (parseFloat (nota cal) = NaN \<or> parseFloat (ponderacion cal) = NaN) \<longrightarrow>
      calcularNotaFinal (Some cals) =
        (if jeq (snd (sumas (filter tieneNota cals))) (Fin 0) then Null else Num NaN))
   \<and> (cal \<in> set cals \<and> tieneNota cal \<and> parseFloat (ponderacion cal) = NaN \<longrightarrow>
        calcularNotaFinal (Some cals) = Num NaN)
   \<and> parseFloat (JNum x) = x
   \<and> parseFloat (JStr ''85.50'') = Fin (171 / 2)
   \<and> parseFloat (JStr ''abc'') = NaN
   \<and> calcularNotaFinal (Some [\<lparr>nota = JStr ''90.00'', ponderacion = JStr ''50.00''\<rparr>,
                                \<lparr>nota = JNum (Fin 80), ponderacion = JStr ''50''\<rparr>]) = Num (Fin 85)"
proof -
  let ?con = "filter tieneNota cals"
  let ?t = "\<lambda>e. jdiv (jmul (parseFloat (nota e)) (parseFloat (ponderacion e))) (Fin 100)"
  have S: "fst (sumas ?con) = NaN"
    if "cal \<in> set cals" "tieneNota cal" "parseFloat (nota cal) = NaN \<or> parseFloat (ponderacion cal) = NaN"
  proof -
    have "?t cal = NaN" using that(3) by auto
    moreover have "cal \<in> set ?con" using that by simp
    ultimately have "NaN \<in> set (map ?t ?con)" by force
    then show ?thesis by (simp add: sumas_eq fsum_mem_NaN)
  qed
  have W: "snd (sumas ?con) = NaN"
    if "cal \<in> set cals" "tieneNota cal" "parseFloat (ponderacion cal) = NaN"
  proof -
    have "cal \<in> set ?con" using that by simp
    then have "NaN \<in> set (map (\<lambda>e. parseFloat (ponderacion e)) ?con)" using that(3) by force
    then show ?thesis by (simp add: sumas_eq fsum_mem_NaN)
  qed
  have 1: "calcularNotaFinal (Some cals) =
        (if jeq (snd (sumas ?con)) (Fin 0) then Null else Num NaN)"
    if "cal \<in> set cals" "tieneNota cal" "parseFloat (nota cal) = NaN \<or> parseFloat (ponderacion cal) = NaN"
  proof -
    have ne: "?con \<noteq> []" "cals \<noteq> []" using that by (auto simp: filter_empty_conv)
    show ?thesis using ne S[OF that] by (simp add: calcularNotaFinal_def Let_def)
  qed
  have 2: "calcularNotaFinal (Some cals) = Num NaN"
    if "cal \<in> set cals" "tieneNota cal" "parseFloat (ponderacion cal) = NaN"
    using 1[OF that(1,2)] that(3) W[OF that] by (simp add: jeq_def)
  have 3: "parseFloat (JStr ''85.50'') = Fin (171 / 2)"
    using rd_near[of "-46" "171 / 2" "171 * 2 ^ 45"]
    by (simp add: parseFloatStr_def isWhite_def isDigit_def Let_def digitsVal_def exponentPart_def)
  have 4: "parseFloat (JStr ''abc'') = NaN"
    by (simp add: parseFloatStr_def isWhite_def isDigit_def Let_def)
  have p: "parseFloatStr ''90.00'' = Fin 90" "parseFloatStr ''50.00'' = Fin 50"
    "parseFloatStr ''50'' = Fin 50"
    by (simp_all add: parseFloatStr_def isWhite_def isDigit_def Let_def digitsVal_def exponentPart_def)
  have 5: "calcularNotaFinal (Some [\<lparr>nota = JStr ''90.00'', ponderacion = JStr ''50.00''\<rparr>,
                                \<lparr>nota = JNum (Fin 80), ponderacion = JStr ''50''\<rparr>]) = Num (Fin 85)"
    using math_round_cert[of 8500 8500]
    by (simp add: calcularNotaFinal_def sumas_def acumular_def tieneNota_def jeq_def p)
  show ?thesis using 1 2 3 4 5 by simp
qed

theorem unparseable_values_witness:
  "\<lparr>nota = JStr ''abc'', ponderacion = JStr ''x''\<rparr> \<in> set [\<lparr>nota = JStr ''abc'', ponderacion = JStr ''x''\<rparr>]
   \<and> tieneNota \<lparr>nota = JStr ''abc'', ponderacion = JStr ''x''\<rparr>
   \<and> parseFloat (nota \<lparr>nota = JStr ''abc'', ponderacion = JStr ''x''\<rparr>) = NaN
   \<and> parseFloat (ponderacion \<lparr>nota = JStr ''abc'', ponderacion = JStr ''x''\<rparr>) = NaN
   \<and> calcularNotaFinal (Some [\<lparr>nota = JStr ''abc'', ponderacion = JStr ''x''\<rparr>]) = Num NaN"
proof -
  have p: "parseFloatStr ''abc'' = NaN" "parseFloatStr ''x'' = NaN"
    by (simp_all add: parseFloatStr_def isWhite_def isDigit_def Let_def)
  show ?thesis
    using unparseable_values[of "\<lparr>nota = JStr ''abc'', ponderacion = JStr ''x''\<rparr>"
        "[\<lparr>nota = JStr ''abc'', ponderacion = JStr ''x''\<rparr>]"]
    by (simp add: tieneNota_def sumas_def acumular_def jeq_def p)
qed

theorem unparseable_values_counterexample:
  "tieneNota \<lparr>nota = JStr ''abc'', ponderacion = JStr ''100''\<rparr>
   \<and> parseFloat (JStr ''abc'') = NaN
   \<and> calcularNotaFinal (Some [\<lparr>nota = JStr ''abc'', ponderacion = JStr ''100''\<rparr>]) = Num NaN
   \<and> calcularNotaFinal (Some [\<lparr>nota = JStr ''abc'', ponderacion = JStr ''50''\<rparr>,
                                \<lparr>nota = JStr ''80'', ponderacion = JStr ''50''\<rparr>]) = Num NaN
   \<and> calcularNotaFinal (Some [\<lparr>nota = JStr ''80'', ponderacion = JStr ''50''\<rparr>]) = Num (Fin 80)"
proof -
  have p: "parseFloatStr ''abc'' = NaN" "parseFloatStr ''100'' = Fin 100"
    "parseFloatStr ''50'' = Fin 50" "parseFloatStr ''80'' = Fin 80"
    by (simp_all add: parseFloatStr_def isWhite_def isDigit_def Let_def digitsVal_def exponentPart_def)
  show ?thesis
    using math_round_cert[of 8000 8000]
    by (simp add: calcularNotaFinal_def sumas_def acumular_def tieneNota_def jeq_def p)
qed

section \<open>The semester statistics\<close>





section \<open>Evaluations of full weight\<close>

text \<open>
  Multiplying a number by 100, dividing the product by 100 and multiplying the quotient
  by 100 again gives the first product: the division by a weight total of 100 leaves no
  trace in the value \<open>Math.round\<close> receives.
\<close>

lemma rne_err: "\<bar>of_int (rne x) - x\<bar> \<le> 1 / 2"
proof -
  have f: "of_int \<lfloor>x\<rfloor> \<le> x" "x < of_int \<lfloor>x\<rfloor> + 1" by linarith+
  consider "x - of_int \<lfloor>x\<rfloor> < 1 / 2" | "1 / 2 < x - of_int \<lfloor>x\<rfloor>"
    | "x - of_int \<lfloor>x\<rfloor> = 1 / 2" by linarith
  then show ?thesis
  proof cases
    case 1
    then have "rne x = \<lfloor>x\<rfloor>" by (simp add: rne_def Let_def)
    then show ?thesis using f 1 by simp
  next
    case 2
    then have "rne x = \<lfloor>x\<rfloor> + 1" by (simp add: rne_def Let_def)
    then show ?thesis using f 2 by simp
  next
    case 3
    then have "rne x = \<lfloor>x\<rfloor> \<or> rne x = \<lfloor>x\<rfloor> + 1" by (simp add: rne_def Let_def)
    then show ?thesis using f 3 by auto
  qed
qed

lemma rd_pos_fin:
  assumes "0 < q" "of_int (rne (q / 2 powi ulp_exp q)) * 2 powi ulp_exp q < huge"
  shows "round_double q = Fin (of_int (rne (q / 2 powi ulp_exp q)) * 2 powi ulp_exp q)"
  using rd_pos[OF assms(1)] assms(2) by simp

lemma rd_err_pos:
  assumes "0 < q"
  shows "\<bar>of_int (rne (q / 2 powi ulp_exp q)) * 2 powi ulp_exp q - q\<bar> \<le> 2 powi ulp_exp q / 2"
proof -
  let ?u = "(2::rat) powi ulp_exp q"
  have u0: "0 < ?u" by simp
  have "\<bar>of_int (rne (q / ?u)) - q / ?u\<bar> * ?u \<le> 1 / 2 * ?u"
    using rne_err[of "q / ?u"] u0 by (simp only: mult_le_cancel_right_pos)
  moreover have "\<bar>of_int (rne (q / ?u)) - q / ?u\<bar> * ?u = \<bar>(of_int (rne (q / ?u)) - q / ?u) * ?u\<bar>"
    using u0 by (simp add: abs_mult)
  moreover have "(of_int (rne (q / ?u)) - q / ?u) * ?u = of_int (rne (q / ?u)) * ?u - q"
    using u0 by (simp add: left_diff_distrib)
  ultimately show ?thesis by simp
qed

lemma ulp_exp_sub:
  assumes "0 < x" "x < 2 powi (- 1022)"
  shows "ulp_exp x = - 1074"
proof -
  have "2 powi (ilog2 x) \<le> x" using ilog2_bounds[OF assms(1)] by simp
  then have "(2::rat) powi (ilog2 x) < 2 powi (- 1022)" using assms(2) by linarith
  then have "ilog2 x < - 1022" by (simp only: p2_less_iff)
  then show ?thesis using assms(1) by (simp add: ulp_exp_def)
qed

lemma double_pos_mant:
  assumes "dyadic53 S" "0 < S"
  obtains s where "S = of_int s * 2 powi ulp_exp S" "0 < s" "s < 2 ^ 53"
    "ulp_exp S = - 1074 \<or> 2 ^ 52 \<le> s"
proof -
  let ?u = "(2::rat) powi ulp_exp S"
  let ?n = "rne (S / ?u)"
  have u0: "0 < ?u" by simp
  have "round_double S = Fin S" using assms(1) by (rule rd_exact)
  then have S: "of_int ?n * ?u = S" using rd_pos[OF assms(2)] by (simp split: if_splits)
  have "0 < of_int ?n * ?u" using S assms(2) by simp
  then have "0 < (of_int ?n :: rat)" using zero_less_mult_pos2[of "of_int ?n" ?u] u0 by simp
  then have n0: "0 < ?n" by simp
  have "of_int ?n * ?u < 2 powi (ulp_exp S + 53)" using S ulp_exp_facts(2)[OF assms(2)] by simp
  also have "\<dots> = of_int (2 ^ 53) * ?u" by (simp add: p2_add)
  finally have "(of_int ?n :: rat) < of_int (2 ^ 53)" using u0 by (simp only: mult_less_cancel_right_pos)
  then have n1: "?n < 2 ^ 53" by (simp only: of_int_less_iff)
  show ?thesis using that[of ?n] S n0 n1 mant_bounds(3)[OF assms(2)] by simp
qed

lemma ulp_exp_100:
  assumes "0 < S"
  shows "ulp_exp (S * 100) \<le> ulp_exp S + 7"
proof -
  have q: "0 < S * 100" using assms by simp
  have "S * 100 < 2 powi (ulp_exp S + 53) * 128"
    using ulp_exp_facts(2)[OF assms] p2_pos[of "ulp_exp S + 53"] by linarith
  also have "\<dots> = 2 powi (ulp_exp S + 60)"
  proof -
    have "ulp_exp S + 60 = (ulp_exp S + 53) + 7" by simp
    then have "(2::rat) powi (ulp_exp S + 60) = 2 powi (ulp_exp S + 53) * 2 powi 7"
      by (simp only: p2_add)
    then show ?thesis by simp
  qed
  finally have "(2::rat) powi (ilog2 (S * 100)) < 2 powi (ulp_exp S + 60)"
    using ilog2_bounds[OF q] by linarith
  then have "ilog2 (S * 100) < ulp_exp S + 60" by (simp only: p2_less_iff)
  moreover have "- 1074 \<le> ulp_exp S" using ulp_exp_facts(1)[OF assms] .
  ultimately show ?thesis using q by (simp add: ulp_exp_def)
qed

lemma rd_dyadic:
  assumes "round_double q = Fin y"
  shows "dyadic53 y"
proof -
  have pos: "dyadic53 y" if q: "0 < q" and y: "round_double q = Fin y" for q y
  proof -
    let ?k = "ulp_exp q"
    let ?n = "rne (q / 2 powi ?k)"
    have yy: "y = of_int ?n * 2 powi ?k" and nh: "y < huge"
      using rd_pos[OF q] y by (auto split: if_splits)
    have n: "0 \<le> ?n" "?n \<le> 2 ^ 53" using mant_bounds(1,2)[OF q] by simp_all
    have k: "- 1074 \<le> ?k" using ulp_exp_facts(1)[OF q] .
    have y0: "0 \<le> y" using yy n(1) by simp
    show ?thesis
    proof (cases "?n = 2 ^ 53")
      case True
      have "y = of_int (2 ^ 52) * 2 powi (?k + 1)" unfolding yy True by (simp add: p2_add)
      then show ?thesis using k nh y0 by (intro dyadic53I[of _ "2 ^ 52" "?k + 1"]) simp_all
    next
      case False
      then have "?n < 2 ^ 53" using n(2) by simp
      then show ?thesis using yy k nh y0 n(1) by (intro dyadic53I[of _ ?n ?k]) simp_all
    qed
  qed
  consider "q = 0" | "0 < q" | "q < 0" by linarith
  then show ?thesis
  proof cases
    case 1
    then show ?thesis using assms by simp
  next
    case 2
    then show ?thesis using pos assms by blast
  next
    case 3
    then have "0 < - q" by simp
    moreover have "round_double (- q) = Fin (- y)" using assms by (simp add: rd_minus)
    ultimately have "dyadic53 (- y)" by (rule pos)
    then show ?thesis using dyadic53_minus[of "- y"] by simp
  qed
qed


lemma fin_lt_huge:
  assumes "0 < q" "of_int (rne (q / 2 powi ulp_exp q)) * 2 powi ulp_exp q < huge"
  shows "q < huge" and "ulp_exp q \<le> 971"
proof -
  let ?k = "ulp_exp q"
  let ?n = "rne (q / 2 powi ?k)"
  have k: "?k \<le> 971"
  proof (rule ccontr)
    assume "\<not> ?k \<le> 971"
    then have k972: "972 \<le> ?k" by simp
    then have "?k \<noteq> - 1074" by simp
    then have "2 ^ 52 \<le> ?n" using mant_bounds(3)[OF assms(1)] by simp
    then have "(of_int (2 ^ 52) :: rat) \<le> of_int ?n" by (simp only: of_int_le_iff)
    then have "of_int (2 ^ 52) * (2::rat) powi ?k \<le> of_int ?n * 2 powi ?k"
      by (simp only: mult_le_cancel_right_pos p2_pos)
    moreover have "of_int (2 ^ 52) * (2::rat) powi ?k = 2 powi (?k + 52)" by (simp add: p2_add)
    moreover have "(2::rat) powi 1024 \<le> 2 powi (?k + 52)" using k972 by (intro p2_mono) simp
    ultimately show False using assms(2) unfolding huge_def by linarith
  qed
  then show "?k \<le> 971" .
  have "q < 2 powi (?k + 53)" using ulp_exp_facts(2)[OF assms(1)] .
  also have "\<dots> \<le> 2 powi 1024" using k by (intro p2_mono) simp
  finally show "q < huge" by (simp only: huge_def)
qed

lemma renorm_near:
  assumes S: "S = of_int s * 2 powi k" and s: "0 < s" "s < 2 ^ 53"
    and c: "(k = - 1074 \<and> s < 2 ^ 52) \<or> 2 ^ 52 < s" and k: "- 1074 \<le> k"
    and h: "S < huge" and x: "\<bar>x - S\<bar> \<le> 32 / 100 * 2 powi k"
  shows "round_double x = Fin S"
proof -
  let ?u = "(2::rat) powi k"
  have u0: "0 < ?u" by simp
  have s1: "(1::rat) \<le> of_int s" using s(1) by linarith
  have x1: "x - S \<le> 32 / 100 * ?u" "S - x \<le> 32 / 100 * ?u" using x by linarith+
  have "(of_int s - 32 / 100) * ?u = S - 32 / 100 * ?u"
    "(of_int s + 32 / 100) * ?u = S + 32 / 100 * ?u"
    by (simp_all add: S algebra_simps)
  then have lo: "(of_int s - 32 / 100) * ?u \<le> x" and hi: "x \<le> (of_int s + 32 / 100) * ?u"
    using x1 by linarith+
  have "0 < (of_int s - 32 / 100) * ?u" using s1 u0 by (intro mult_pos_pos) simp_all
  then have x0: "0 < x" using lo by linarith
  have "x / ?u - of_int s = (x - S) / ?u" unfolding S using u0 by (simp add: field_simps)
  then have "\<bar>x / ?u - of_int s\<bar> = \<bar>x - S\<bar> / ?u" using u0 by (simp add: abs_divide)
  also have "\<dots> \<le> 32 / 100" using x u0 by (simp add: pos_divide_le_eq)
  finally have "\<bar>x / ?u - of_int s\<bar> < 1 / 2" by simp
  then have rn: "rne (x / ?u) = s" by (rule rne_cert)
  have p52: "(2::rat) powi (k + 52) = 2 ^ 52 * ?u" and p53: "(2::rat) powi (k + 53) = 2 ^ 53 * ?u"
    by (simp_all add: p2_add)
  have ku: "ulp_exp x = k"
  proof (cases "2 ^ 52 < s")
    case True
    then have "2 ^ 52 + 1 \<le> s" by simp
    then have "(of_int (2 ^ 52 + 1) :: rat) \<le> of_int s" by (simp only: of_int_le_iff)
    then have "(2 ^ 52 :: rat) \<le> of_int s - 32 / 100" by simp
    then have "2 ^ 52 * ?u \<le> (of_int s - 32 / 100) * ?u"
      using u0 by (simp only: mult_le_cancel_right_pos)
    then have a: "2 powi (k + 52) \<le> x" unfolding p52 using lo by (rule order_trans)
    have "s \<le> 2 ^ 53 - 1" using s(2) by simp
    then have "(of_int s :: rat) \<le> of_int (2 ^ 53 - 1)" by (simp only: of_int_le_iff)
    then have "(of_int s + 32 / 100 :: rat) < 2 ^ 53" by simp
    then have "(of_int s + 32 / 100) * ?u < 2 ^ 53 * ?u"
      using u0 by (simp only: mult_less_cancel_right_pos)
    then have b: "x < 2 powi (k + 53)" unfolding p53 using hi by (rule order_le_less_trans[rotated])
    show ?thesis using a b k by (rule ulp_exp_binade)
  next
    case False
    then have k1: "k = - 1074" and s2: "s < 2 ^ 52" using c by auto
    have "s \<le> 2 ^ 52 - 1" using s2 by simp
    then have "(of_int s :: rat) \<le> of_int (2 ^ 52 - 1)" by (simp only: of_int_le_iff)
    then have "(of_int s + 32 / 100 :: rat) < 2 ^ 52" by simp
    then have "(of_int s + 32 / 100) * ?u < 2 ^ 52 * ?u"
      using u0 by (simp only: mult_less_cancel_right_pos)
    then have "x < 2 ^ 52 * ?u" using hi by (rule order_le_less_trans[rotated])
    then have "x < 2 powi (k + 52)" unfolding p52 .
    then have "x < 2 powi (- 1022)" unfolding k1 by simp
    then show ?thesis using ulp_exp_sub[OF x0] k1 by simp
  qed
  show ?thesis using rd_pos_fin[OF x0] ku rn h S by simp
qed


lemma renorm_far:
  fixes s n :: int and u :: rat
  assumes u: "u = 2 powi k" and k: "- 1074 \<le> k" "k \<le> 970"
    and S: "S = of_int s * u" and s: "s < 2 ^ 53"
    and T: "T = of_int n * (128 * u)" and n: "2 ^ 52 \<le> n" "n \<le> 2 ^ 53"
    and lo: "2 ^ 52 * 128 \<le> 100 * (of_int s :: rat)"
    and err: "\<bar>128 * of_int n - 100 * (of_int s :: rat)\<bar> \<le> 64"
    and Th: "T < huge"
  shows "\<exists>U. round_double (T / 100) = Fin U \<and> round_double (U * 100) = Fin T"
proof -
  define \<sigma> :: rat where "\<sigma> = of_int s"
  define \<nu> :: rat where "\<nu> = of_int n"
  have u0: "0 < u" by (simp add: u)
  have e: "(2::rat) ^ 52 = 4503599627370496" "(2::rat) ^ 53 = 9007199254740992" by simp_all
  have p52: "(2::rat) powi (k + 52) = 2 ^ 52 * u" and p53: "(2::rat) powi (k + 53) = 2 ^ 53 * u"
    by (simp_all add: p2_add u)
  have q59: "(2::rat) powi (k + 7 + 52) = (2 ^ 52 * 128) * u"
    and q60: "(2::rat) powi (k + 7 + 53) = (2 ^ 53 * 128) * u"
    and q61: "(2::rat) powi (k + 8 + 53) = (2 ^ 53 * 256) * u"
    and q60': "(2::rat) powi (k + 8 + 52) = (2 ^ 52 * 256) * u"
    and u128: "(2::rat) powi (k + 7) = 128 * u" and u256: "(2::rat) powi (k + 8) = 256 * u"
    by (simp_all add: p2_add u)
  have sb: "\<sigma> \<le> 2 ^ 53 - 1"
  proof -
    have "s \<le> 2 ^ 53 - 1" using s by simp
    then have "(of_int s :: rat) \<le> of_int (2 ^ 53 - 1)" by (simp only: of_int_le_iff)
    then show ?thesis by (simp add: \<sigma>_def)
  qed
  have nb: "2 ^ 52 \<le> \<nu>" "\<nu> \<le> 2 ^ 53"
  proof -
    have "(of_int (2 ^ 52) :: rat) \<le> of_int n" "(of_int n :: rat) \<le> of_int (2 ^ 53)"
      using n by (simp_all only: of_int_le_iff)
    then show "2 ^ 52 \<le> \<nu>" "\<nu> \<le> 2 ^ 53" by (simp_all add: \<nu>_def)
  qed
  have lo': "2 ^ 52 * 128 \<le> 100 * \<sigma>" using lo by (simp add: \<sigma>_def)
  have err': "\<bar>128 * \<nu> - 100 * \<sigma>\<bar> \<le> 64" using err by (simp add: \<sigma>_def \<nu>_def)
  define x where "x = T / 100"
  have xu: "x = (128 * \<nu> / 100) * u" by (simp add: x_def T \<nu>_def)
  have x1: "2 ^ 52 \<le> 128 * \<nu> / 100" "128 * \<nu> / 100 < 2 ^ 53"
    using lo' err' sb e by linarith+
  have "2 ^ 52 * u \<le> (128 * \<nu> / 100) * u" "(128 * \<nu> / 100) * u < 2 ^ 53 * u"
    using x1 u0 by (simp_all only: mult_le_cancel_right_pos mult_less_cancel_right_pos)
  then have xb: "2 powi (k + 52) \<le> x" "x < 2 powi (k + 53)" unfolding p52 p53 xu .
  have x0: "0 < x" using xb(1) p2_pos[of "k + 52"] by linarith
  have kx: "ulp_exp x = k" using xb k(1) by (rule ulp_exp_binade)
  define m where "m = rne (128 * \<nu> / 100)"
  define \<mu> :: rat where "\<mu> = of_int m"
  have xdiv: "x / 2 powi k = 128 * \<nu> / 100" using u0 by (simp add: xu u[symmetric])
  have mb: "2 ^ 52 \<le> m" "m \<le> 2 ^ 53"
  proof -
    have a: "of_int (2 ^ 52) \<le> 128 * \<nu> / 100" and b: "128 * \<nu> / 100 \<le> of_int (2 ^ 53)"
      using x1 by simp_all
    show "2 ^ 52 \<le> m" unfolding m_def using a by (rule rne_lower)
    show "m \<le> 2 ^ 53" unfolding m_def using b by (rule rne_upper)
  qed
  have merr: "\<bar>\<mu> - 128 * \<nu> / 100\<bar> \<le> 1 / 2" unfolding \<mu>_def m_def by (rule rne_err)
  define U where "U = \<mu> * u"
  have Uh: "U < huge" unfolding U_def \<mu>_def u using mb(2) k(2) by (intro below_huge) simp_all
  have rx: "round_double x = Fin U"
    using rd_pos_fin[OF x0] Uh by (simp add: kx xdiv U_def \<mu>_def m_def u)
  have mub: "2 ^ 52 \<le> \<mu>"
  proof -
    have "(of_int (2 ^ 52) :: rat) \<le> of_int m" using mb(1) by (simp only: of_int_le_iff)
    then show ?thesis by (simp add: \<mu>_def)
  qed
  define p where "p = U * 100"
  have pu: "p = (100 * \<mu>) * u" by (simp add: p_def U_def)
  have p0: "0 < p" unfolding pu using mub u0 by (intro mult_pos_pos) simp_all
  have perr: "\<bar>100 * \<mu> - 128 * \<nu>\<bar> \<le> 50" using merr by linarith
  have Tu: "T = (128 * \<nu>) * u" by (simp add: T \<nu>_def)
  have "round_double p = Fin T"
  proof -
    consider (lowb) "100 * \<mu> < 2 ^ 52 * 128" | (mid) "2 ^ 52 * 128 \<le> 100 * \<mu>" "100 * \<mu> < 2 ^ 53 * 128"
      | (high) "2 ^ 53 * 128 \<le> 100 * \<mu>" using e by linarith
    then show ?thesis
    proof cases
      case mid
      have "(2 ^ 52 * 128) * u \<le> (100 * \<mu>) * u"
        using mid(1) u0 by (simp only: mult_le_cancel_right_pos)
      then have pb1: "2 powi (k + 7 + 52) \<le> p" unfolding q59 pu .
      have "(100 * \<mu>) * u < (2 ^ 53 * 128) * u"
        using mid(2) u0 by (simp only: mult_less_cancel_right_pos)
      then have pb2: "p < 2 powi (k + 7 + 53)" unfolding q60 pu .
      note pb = pb1 pb2
      have kp: "ulp_exp p = k + 7" using pb k(1) by (intro ulp_exp_binade) simp_all
      have pd: "p / 2 powi (k + 7) = 100 * \<mu> / 128" unfolding u128 pu using u0 by simp
      have "\<bar>100 * \<mu> / 128 - of_int n\<bar> < 1 / 2"
        using perr unfolding \<nu>_def by linarith
      then have "rne (100 * \<mu> / 128) = n" by (rule rne_cert)
      then have "rne (p / 2 powi (k + 7)) = n" unfolding pd .
      then show ?thesis using rd_pos_fin[OF p0] Th by (simp add: kp T u128)
    next
      case lowb
      then have "128 * \<nu> < 2 ^ 52 * 128 + 50" using perr e by linarith
      then have "\<nu> < 2 ^ 52 + 1" by simp
      then have "(of_int n :: rat) < of_int (2 ^ 52 + 1)" by (simp add: \<nu>_def)
      then have "n < 2 ^ 52 + 1" by (simp only: of_int_less_iff)
      then have n52: "n = 2 ^ 52" using n(1) by simp
      have "128 * \<nu> / 100 = 2 ^ 59 / 100" by (simp add: \<nu>_def n52)
      moreover have "rne (2 ^ 59 / 100) = 5764607523034235"
        by (rule rne_cert) simp
      ultimately have "m = 5764607523034235" by (simp add: m_def)
      then have "100 * \<mu> = 576460752303423500" by (simp add: \<mu>_def)
      then show ?thesis using lowb by simp
    next
      case high
      then have "2 ^ 53 * 128 - 50 \<le> 128 * \<nu>" using perr e by linarith
      then have "2 ^ 53 - 1 < \<nu>" by simp
      then have "(of_int (2 ^ 53 - 1) :: rat) < of_int n" by (simp add: \<nu>_def)
      then have "2 ^ 53 - 1 < n" by (simp only: of_int_less_iff)
      then have n53: "n = 2 ^ 53" using n(2) by simp
      have nu53: "\<nu> = 2 ^ 53" by (simp add: \<nu>_def n53)
      have hi2: "100 * \<mu> < 2 ^ 53 * 256" using perr nu53 e by linarith
      have "2 ^ 52 * 256 \<le> 100 * \<mu>" using high e by linarith
      then have "(2 ^ 52 * 256) * u \<le> (100 * \<mu>) * u"
        using u0 by (simp only: mult_le_cancel_right_pos)
      then have pb1: "2 powi (k + 8 + 52) \<le> p" unfolding q60' pu .
      have "(100 * \<mu>) * u < (2 ^ 53 * 256) * u"
        using hi2 u0 by (simp only: mult_less_cancel_right_pos)
      then have pb2: "p < 2 powi (k + 8 + 53)" unfolding q61 pu .
      note pb = pb1 pb2
      have kp: "ulp_exp p = k + 8" using pb k(1) by (intro ulp_exp_binade) simp_all
      have pd: "p / 2 powi (k + 8) = 100 * \<mu> / 256" unfolding u256 pu using u0 by simp
      have "\<bar>100 * \<mu> / 256 - of_int (2 ^ 52)\<bar> < 1 / 2"
      proof -
        have "(of_int (2 ^ 52) :: rat) = 2 ^ 52" by simp
        then show ?thesis using perr high nu53 e by linarith
      qed
      then have "rne (100 * \<mu> / 256) = 2 ^ 52" by (rule rne_cert)
      then have "rne (p / 2 powi (k + 8)) = 2 ^ 52" unfolding pd .
      moreover have "of_int (2 ^ 52) * (256 * u) = T" by (simp add: T n53)
      ultimately show ?thesis using rd_pos_fin[OF p0] Th by (simp add: kp u256)
    qed
  qed
  then show ?thesis using rx unfolding x_def p_def by blast
qed


lemma renorm_pos:
  assumes "dyadic53 S" "0 < S"
  shows "jmul (jdiv (jmul (Fin S) (Fin 100)) (Fin 100)) (Fin 100) = jmul (Fin S) (Fin 100)"
proof -
  from double_pos_mant[OF assms] obtain s where
    s: "S = of_int s * 2 powi ulp_exp S" "0 < s" "s < 2 ^ 53" "ulp_exp S = - 1074 \<or> 2 ^ 52 \<le> s" .
  define k where "k = ulp_exp S"
  define u :: rat where "u = 2 powi k"
  have u0: "0 < u" by (simp add: u_def)
  have Su: "S = of_int s * u" using s(1) by (simp add: u_def k_def)
  have k0: "- 1074 \<le> k" unfolding k_def using ulp_exp_facts(1)[OF assms(2)] .
  have Sh: "S < huge" using assms unfolding dyadic53_def by auto
  define q where "q = S * 100"
  have q0: "0 < q" using assms(2) by (simp add: q_def)
  define k' where "k' = ulp_exp q"
  define u' :: rat where "u' = 2 powi k'"
  define n where "n = rne (q / u')"
  define T where "T = of_int n * u'"
  have u'0: "0 < u'" by (simp add: u'_def)
  have m1: "round_double q = (if huge \<le> T then PInf else Fin T)"
    using rd_pos[OF q0] by (simp add: T_def n_def u'_def k'_def)
  show ?thesis
  proof (cases "huge \<le> T")
    case True
    then show ?thesis using m1 by (simp add: q_def)
  next
    case False
    then have Th: "T < huge" by simp
    have rq: "round_double q = Fin T" using m1 False by simp
    have "S \<le> q" using assms(2) by (simp add: q_def)
    then have "jle (Fin S) (round_double q)" using assms(1) by (intro rd_lower)
    then have T0: "0 < T" using rq assms(2) by simp
    have err: "\<bar>T - q\<bar> \<le> u' / 2"
      using rd_err_pos[OF q0] by (simp add: T_def n_def u'_def k'_def)
    have qh: "q < huge" "k' \<le> 971"
      using fin_lt_huge[OF q0] Th by (simp_all add: T_def n_def u'_def k'_def)
    have kk: "k' \<le> k + 7" unfolding k'_def k_def q_def using assms(2) by (rule ulp_exp_100)
    have ex: "\<exists>U. round_double (T / 100) = Fin U \<and> round_double (U * 100) = Fin T"
    proof (cases "T = q")
      case True
      then have "T / 100 = S" by (simp add: q_def)
      then show ?thesis using rd_exact[OF assms(1)] rq by (auto simp: q_def)
    next
      case neq: False
      show ?thesis
      proof (cases "k' \<le> k + 6")
        case True
        then have "(2::rat) powi k' \<le> 2 powi (k + 6)" by (rule p2_mono)
        also have "\<dots> = 64 * u" by (simp add: p2_add u_def)
        finally have "u' \<le> 64 * u" by (simp add: u'_def)
        then have e32: "\<bar>T - q\<bar> \<le> 32 * u" using err by linarith
        have d: "T / 100 - S = (T - q) / 100" by (simp add: q_def field_simps)
        have "\<bar>T / 100 - S\<bar> = \<bar>T - q\<bar> / 100" unfolding d by simp
        also have "\<dots> \<le> 32 * u / 100" using e32 by (simp add: divide_right_mono)
        finally have x: "\<bar>T / 100 - S\<bar> \<le> 32 / 100 * 2 powi k"
          by (simp add: u_def)
        have "s \<noteq> 2 ^ 52"
        proof
          assume s52: "s = 2 ^ 52"
          have "q = of_int 25 * 2 powi (k + 54)" by (simp add: q_def Su s52 p2_add u_def)
          moreover have "\<bar>q\<bar> < huge" using qh(1) q0 by simp
          ultimately have "dyadic53 q" using k0 by (intro dyadic53I[of q 25 "k + 54"]) simp_all
          then have "round_double q = Fin q" by (rule rd_exact)
          then show False using rq neq by simp
        qed
        then have c: "(k = - 1074 \<and> s < 2 ^ 52) \<or> 2 ^ 52 < s" using s(4) by (auto simp: k_def)
        have "round_double (T / 100) = Fin S"
          using Su[unfolded u_def] s(2,3) c k0 Sh x by (rule renorm_near)
        then show ?thesis using rq by (auto simp: q_def)
      next
        case False
        then have k7: "k' = k + 7" using kk by simp
        have u'128: "u' = 128 * u" by (simp add: u'_def u_def k7 p2_add)
        have nc: "k' \<noteq> - 1074" using k7 k0 by simp
        have nb: "2 ^ 52 \<le> n" "n \<le> 2 ^ 53"
          using mant_bounds(2,3)[OF q0] nc by (simp_all add: n_def u'_def k'_def)
        have "2 powi (k' + 52) \<le> q" using ulp_exp_facts(3)[OF q0] nc by (simp add: k'_def)
        moreover have "(2::rat) powi (k' + 52) = (2 ^ 52 * 128) * u"
          by (simp add: k7 p2_add u_def)
        moreover have "q = (100 * of_int s) * u" by (simp add: q_def Su)
        ultimately have "(2 ^ 52 * 128) * u \<le> (100 * of_int s) * u" by simp
        then have lo: "2 ^ 52 * 128 \<le> 100 * (of_int s :: rat)"
          using u0 by (simp only: mult_le_cancel_right_pos)
        have "T - q = (128 * of_int n - 100 * of_int s) * u"
          by (simp add: T_def u'128 q_def Su algebra_simps)
        then have "\<bar>128 * of_int n - 100 * of_int s\<bar> * u \<le> 64 * u"
          using err u0 by (simp add: u'128 abs_mult)
        then have er: "\<bar>128 * of_int n - 100 * (of_int s :: rat)\<bar> \<le> 64"
          using u0 by (simp only: mult_le_cancel_right_pos)
        have kb: "k \<le> 970" using qh(2) k7 by simp
        show ?thesis
          using u_def k0 kb Su s(3) _ nb lo er Th
          by (rule renorm_far) (simp add: T_def u'128)
      qed
    qed
    then obtain U where U: "round_double (T / 100) = Fin U" "round_double (U * 100) = Fin T" by blast
    have "T \<noteq> 0" using T0 by simp
    show ?thesis using rq U by (simp add: q_def[symmetric])
  qed
qed


lemma jmul_jneg_100: "jmul (jneg x) (Fin 100) = jneg (jmul x (Fin 100))"
  by (cases x) (simp_all add: rd_minus)

lemma jdiv_jneg_100: "jdiv (jneg x) (Fin 100) = jneg (jdiv x (Fin 100))"
  by (cases x) (simp_all add: rd_minus)

lemma renorm:
  assumes "es_double x"
  shows "jmul (jdiv (jmul x (Fin 100)) (Fin 100)) (Fin 100) = jmul x (Fin 100)"
proof (cases x)
  case (Fin S)
  then have d: "dyadic53 S" using assms by simp
  consider "0 < S" | "S = 0" | "S < 0" by linarith
  then show ?thesis
  proof cases
    case 1
    then show ?thesis using renorm_pos[OF d] Fin by simp
  next
    case 2
    then show ?thesis using Fin by simp
  next
    case 3
    then have "0 < - S" by simp
    from renorm_pos[OF dyadic53_minus[OF d] this]
    have "jmul (jdiv (jmul (jneg (Fin S)) (Fin 100)) (Fin 100)) (Fin 100) = jmul (jneg (Fin S)) (Fin 100)"
      by simp
    then have "jneg (jmul (jdiv (jmul (Fin S) (Fin 100)) (Fin 100)) (Fin 100)) = jneg (jmul (Fin S) (Fin 100))"
      by (simp only: jmul_jneg_100 jdiv_jneg_100)
    moreover have "jneg a = jneg b \<Longrightarrow> a = b" for a b by (cases a; cases b) simp_all
    ultimately show ?thesis using Fin by blast
  qed
qed simp_all

lemma es_double_round [simp]: "es_double (round_double q)"
  by (cases "round_double q") (simp_all add: rd_dyadic)

lemma es_double_jadd [simp]: "es_double (jadd x y)"
  by (cases x; cases y) simp_all

lemma es_double_foldl: "es_double s \<Longrightarrow> es_double (foldl jadd s xs)"
  by (induction xs arbitrary: s) simp_all

lemma es_double_fsum [simp]: "es_double (fsum xs)"
  unfolding fsum_def by (rule es_double_foldl) simp

lemma redondear2_renorm:
  "es_double x \<Longrightarrow> redondear2 (jdiv (jmul x (Fin 100)) (Fin 100)) = redondear2 x"
  unfolding redondear2_def by (simp only: renorm)

text \<open>
  Claim C8. When every evaluation of a non-empty list has a score and the total of the
  weights that \<open>_calcularNotaFinal\<close> accumulates in \<open>sumaPonderaciones\<close> is the number
  100, the final grade is the sum of \<open>score * weight / 100\<close> rounded to 2 decimals: the
  renormalisation \<open>(sumaPonderada * 100) / sumaPonderaciones\<close> changes nothing. The
  premise is on the total the code computes. Weights whose decimal values add up to 100
  can accumulate to a neighbouring number: for the weights 88.90, 4.70 and 6.40 the
  total is \<open>100 + 1 / 2 ^ 46\<close>, and with the scores 9, 10 and 6 the final grade is 8.85 while
  the rounded weighted sum is 8.86.
\<close>

theorem full_weight_no_renormalisation:
  "evaluations \<noteq> [] \<and> list_all tieneNota evaluations
     \<and> fsum (map (\<lambda>e. parseFloat (ponderacion e)) evaluations) = Fin 100
   \<longrightarrow> calcularNotaFinal (Some evaluations) =
         Num (redondear2 (fsum (map (\<lambda>e. jdiv (jmul (parseFloat (nota e)) (parseFloat (ponderacion e)))
                                          (Fin 100)) evaluations)))"
proof (intro impI, elim conjE)
  assume ne: "evaluations \<noteq> []" and all: "list_all tieneNota evaluations"
    and w: "fsum (map (\<lambda>e. parseFloat (ponderacion e)) evaluations) = Fin 100"
  have f: "filter tieneNota evaluations = evaluations" using all by (simp add: list_all_iff)
  have s: "snd (sumas evaluations) = Fin 100" using w by (simp add: sumas_eq)
  have 1: "calcularNotaFinal (Some evaluations) = Num (redondear2 (notaProporcional evaluations))"
    by (rule calcular_redondear) (simp_all add: f ne s jeq_def)
  have 2: "redondear2 (notaProporcional evaluations) = redondear2 (fst (sumas evaluations))"
    unfolding notaProporcional_def f s by (rule redondear2_renorm) (simp add: sumas_eq)
  show "calcularNotaFinal (Some evaluations) =
         Num (redondear2 (fsum (map (\<lambda>e. jdiv (jmul (parseFloat (nota e)) (parseFloat (ponderacion e)))
                                          (Fin 100)) evaluations)))"
    using 1 2 by (simp add: sumas_eq)
qed

theorem full_weight_no_renormalisation_witness:
  "list_all tieneNota [\<lparr>nota = JStr ''80.00'', ponderacion = JStr ''60.00''\<rparr>,
                       \<lparr>nota = JStr ''70.00'', ponderacion = JStr ''40.00''\<rparr>]
   \<and> fsum (map (\<lambda>e. parseFloat (ponderacion e))
        [\<lparr>nota = JStr ''80.00'', ponderacion = JStr ''60.00''\<rparr>,
         \<lparr>nota = JStr ''70.00'', ponderacion = JStr ''40.00''\<rparr>]) = Fin 100
   \<and> calcularNotaFinal (Some [\<lparr>nota = JStr ''80.00'', ponderacion = JStr ''60.00''\<rparr>,
                                \<lparr>nota = JStr ''70.00'', ponderacion = JStr ''40.00''\<rparr>]) =
        Num (Fin 76)"
proof -
  have p: "parseFloatStr ''80.00'' = Fin 80" "parseFloatStr ''60.00'' = Fin 60"
    "parseFloatStr ''70.00'' = Fin 70" "parseFloatStr ''40.00'' = Fin 40"
    by (simp_all add: parseFloatStr_def isWhite_def isDigit_def Let_def digitsVal_def exponentPart_def)
  show ?thesis
    using full_weight_no_renormalisation[of "[\<lparr>nota = JStr ''80.00'', ponderacion = JStr ''60.00''\<rparr>,
                       \<lparr>nota = JStr ''70.00'', ponderacion = JStr ''40.00''\<rparr>]"]
      math_round_cert[of 7600 7600]
    by (simp add: fsum_def tieneNota_def redondear2_def p)
qed

theorem full_weight_no_renormalisation_counterexample:
  "list_all tieneNota [\<lparr>nota = JStr ''9.00'', ponderacion = JStr ''88.90''\<rparr>,
                       \<lparr>nota = JStr ''10.00'', ponderacion = JStr ''4.70''\<rparr>,
                       \<lparr>nota = JStr ''6.00'', ponderacion = JStr ''6.40''\<rparr>]
   \<and> map (\<lambda>e. parseFloat (ponderacion e))
        [\<lparr>nota = JStr ''9.00'', ponderacion = JStr ''88.90''\<rparr>,
         \<lparr>nota = JStr ''10.00'', ponderacion = JStr ''4.70''\<rparr>,
         \<lparr>nota = JStr ''6.00'', ponderacion = JStr ''6.40''\<rparr>] =
       [round_double (8890 / 100), round_double (470 / 100), round_double (640 / 100)]
   \<and> (8890 / 100 + 470 / 100 + 640 / 100 :: rat) = 100
   \<and> fsum (map (\<lambda>e. parseFloat (ponderacion e))
        [\<lparr>nota = JStr ''9.00'', ponderacion = JStr ''88.90''\<rparr>,
         \<lparr>nota = JStr ''10.00'', ponderacion = JStr ''4.70''\<rparr>,
         \<lparr>nota = JStr ''6.00'', ponderacion = JStr ''6.40''\<rparr>]) =
       Fin (100 + 1 / 2 ^ 46)
   \<and> calcularNotaFinal (Some [\<lparr>nota = JStr ''9.00'', ponderacion = JStr ''88.90''\<rparr>,
                                \<lparr>nota = JStr ''10.00'', ponderacion = JStr ''4.70''\<rparr>,
                                \<lparr>nota = JStr ''6.00'', ponderacion = JStr ''6.40''\<rparr>]) =
       Num (round_double (885 / 100))
   \<and> redondear2 (fsum (map (\<lambda>e. jdiv (jmul (parseFloat (nota e)) (parseFloat (ponderacion e))) (Fin 100))
        [\<lparr>nota = JStr ''9.00'', ponderacion = JStr ''88.90''\<rparr>,
         \<lparr>nota = JStr ''10.00'', ponderacion = JStr ''4.70''\<rparr>,
         \<lparr>nota = JStr ''6.00'', ponderacion = JStr ''6.40''\<rparr>])) =
       round_double (886 / 100)
   \<and> round_double (885 / 100) \<noteq> round_double (886 / 100)"
proof -
  have p: "parseFloatStr ''9.00'' = Fin 9" "parseFloatStr ''10.00'' = Fin 10"
    "parseFloatStr ''6.00'' = Fin 6"
    "parseFloatStr ''88.90'' = round_double (889 / 10)"
    "parseFloatStr ''4.70'' = round_double (47 / 10)"
    "parseFloatStr ''6.40'' = round_double (32 / 5)"
    by (simp_all add: parseFloatStr_def isWhite_def isDigit_def Let_def digitsVal_def exponentPart_def)
  note certs =
      rd_near[of "-46" "889 / 10" 6255781357394330]
      rd_near[of "-50" "47 / 10" 5291729562160333]
      rd_near[of "-50" "32 / 5" 7205759403792794]
      rd_near[of "-43" "28151016108274485 / 35184372088832" 7037754027068621]
      rd_near[of "-49" "7037754027068621 / 879609302220800" 4504162577323917]
      rd_near[of "-49" "4504162577323917 / 562949953421312" 4504162577323917]
      rd_near[of "-46" "3127890678697165 / 35184372088832" 6255781357394330]
      rd_near[of "-47" "26458647810801665 / 562949953421312" 6614661952700416]
      rd_near[of "-54" "47 / 100" 8466767299456532]
      rd_near[of "-49" "38149992443455469 / 4503599627370496" 4768749055431934]
      rd_near[of "-46" "105384231280469613 / 1125899906842624" 6586514455029351]
      rd_tie[of "-47" "10808639105689191 / 281474976710656" 5404319552844595]
      rd_near[of "-54" "1351079888211149 / 3518437208883200" 6917529027641083]
      rd_near[of "-49" "159517498801462971 / 18014398509481984" 4984921837545718]
      rd_near[of "-46" "56294995342131205 / 562949953421312" 7036874417766401]
      rd_near[of "-43" "62311522969321475 / 70368744177664" 7788940371165184]
      rd_near[of "-49" "62311522969321472 / 7036874417766401" 4984921837545717]
      rd_near[of "-43" "124623045938642925 / 140737488355328" 7788940371165183]
      rd_near[of "-49" "177 / 20" 4982107087778611]
      rd_near[of "-49" "443 / 50" 4987736587312824]
      math_round_cert[of 886 "1771 / 2"]
      math_round_cert[of 885 "7788940371165183 / 8796093022208"]
  have 1: "list_all tieneNota [\<lparr>nota = JStr ''9.00'', ponderacion = JStr ''88.90''\<rparr>,
                       \<lparr>nota = JStr ''10.00'', ponderacion = JStr ''4.70''\<rparr>,
                       \<lparr>nota = JStr ''6.00'', ponderacion = JStr ''6.40''\<rparr>]"
    by (simp add: tieneNota_def)
  have 2: "map (\<lambda>e. parseFloat (ponderacion e))
        [\<lparr>nota = JStr ''9.00'', ponderacion = JStr ''88.90''\<rparr>,
         \<lparr>nota = JStr ''10.00'', ponderacion = JStr ''4.70''\<rparr>,
         \<lparr>nota = JStr ''6.00'', ponderacion = JStr ''6.40''\<rparr>] =
       [round_double (8890 / 100), round_double (470 / 100), round_double (640 / 100)]"
    by (simp add: p)
  have 3: "(8890 / 100 + 470 / 100 + 640 / 100 :: rat) = 100" by simp
  have 4: "fsum (map (\<lambda>e. parseFloat (ponderacion e))
        [\<lparr>nota = JStr ''9.00'', ponderacion = JStr ''88.90''\<rparr>,
         \<lparr>nota = JStr ''10.00'', ponderacion = JStr ''4.70''\<rparr>,
         \<lparr>nota = JStr ''6.00'', ponderacion = JStr ''6.40''\<rparr>]) =
       Fin (100 + 1 / 2 ^ 46)"
    using certs by (simp add: fsum_def p)
  have 5: "calcularNotaFinal (Some [\<lparr>nota = JStr ''9.00'', ponderacion = JStr ''88.90''\<rparr>,
                                \<lparr>nota = JStr ''10.00'', ponderacion = JStr ''4.70''\<rparr>,
                                \<lparr>nota = JStr ''6.00'', ponderacion = JStr ''6.40''\<rparr>]) =
       Num (round_double (885 / 100))"
    using certs
    by (simp add: calcularNotaFinal_def Let_def tieneNota_def sumas_def acumular_def p jeq_def)
  have 6: "redondear2 (fsum (map (\<lambda>e. jdiv (jmul (parseFloat (nota e)) (parseFloat (ponderacion e))) (Fin 100))
        [\<lparr>nota = JStr ''9.00'', ponderacion = JStr ''88.90''\<rparr>,
         \<lparr>nota = JStr ''10.00'', ponderacion = JStr ''4.70''\<rparr>,
         \<lparr>nota = JStr ''6.00'', ponderacion = JStr ''6.40''\<rparr>])) =
       round_double (886 / 100)"
    using certs by (simp add: redondear2_def fsum_def p)
  have 7: "round_double (885 / 100) \<noteq> round_double (886 / 100)"
    using certs by simp
  show ?thesis by (intro conjI) (rule 1, rule 2, rule 3, rule 4, rule 5, rule 6, rule 7)
qed

section \<open>Rounding to two decimals\<close>

lemma max_double_dyadic: "dyadic53 max_double"
proof (rule dyadic53I[of _ "2 ^ 53 - 1" 971])
  show "max_double = of_int (2 ^ 53 - 1) * 2 powi 971" by (simp add: max_double_def)
  show "\<bar>2 ^ 53 - 1 :: int\<bar> < 2 ^ 53" by simp
  show "- 1074 \<le> (971::int)" by simp
  have "max_double < 2 ^ 53 * 2 powi 971" by (simp add: max_double_def)
  also have "\<dots> = 2 powi (971 + 53)" by (simp only: p2_add) simp
  finally show "\<bar>max_double\<bar> < huge" by (simp add: huge_def max_double_def)
qed

lemma max_double_pos: "0 < max_double"
  by (simp add: max_double_def)

lemma small_max_double: "\<bar>p\<bar> \<le> 2 ^ 62 \<Longrightarrow> \<bar>p\<bar> \<le> max_double"
proof -
  assume a: "\<bar>p\<bar> \<le> 2 ^ 62"
  have "(2::rat) ^ 62 = 2 powi 62" by simp
  also have "\<dots> \<le> 2 powi 971" by (rule p2_mono) simp
  also have "\<dots> \<le> max_double" by (simp add: max_double_def)
  finally show ?thesis using a by linarith
qed

text \<open>A product that does not exceed the largest number is rounded to a number, with a
  relative error of at most \<open>2 ^ - 53\<close>, or it is below one half and stays there.\<close>

lemma rd_rel_err_pos:
  assumes "0 < p" "p \<le> max_double"
  shows "\<exists>y. round_double p = Fin y \<and> 0 \<le> y \<and> (\<bar>y - p\<bar> \<le> p / 2 ^ 53 \<or> (p < 1 / 2 \<and> y < 1 / 2))"
proof -
  let ?k = "ulp_exp p"
  let ?u = "(2::rat) powi ?k"
  let ?T = "of_int (rne (p / ?u)) * ?u"
  have "jle (round_double p) (Fin max_double)"
    using max_double_dyadic assms(2) by (rule rd_upper)
  then have fin: "round_double p = Fin ?T"
    using rd_pos[OF assms(1)] by (simp add: jle_def jeq_def split: if_splits)
  have T0: "0 \<le> ?T" using mant_bounds(1)[OF assms(1)] by simp
  have err: "\<bar>?T - p\<bar> \<le> ?u / 2" by (rule rd_err_pos[OF assms(1)])
  show ?thesis
  proof (cases "?k = - 1074")
    case True
    have "p < 2 powi (?k + 53)" by (rule ulp_exp_facts(2)[OF assms(1)])
    then have p: "p < 2 powi (- 1021)" using True by simp
    have "(2::rat) powi (- 1021) \<le> 2 powi (- 3)" by (rule p2_mono) simp
    then have p8: "p < 1 / 8" using p by simp
    have "?u \<le> 2 powi (- 3)" unfolding True by (rule p2_mono) simp
    then have "?u \<le> 1 / 8" by simp
    then have "?T < 1 / 2" using err p8 by linarith
    then show ?thesis using fin T0 p8 by auto
  next
    case False
    then have lo: "2 powi (?k + 52) \<le> p" using ulp_exp_facts(3)[OF assms(1)] by simp
    have "?u / 2 = 2 powi (?k + 52) / 2 ^ 53" by (simp add: p2_add)
    also have "\<dots> \<le> p / 2 ^ 53" using lo by (simp add: divide_right_mono)
    finally have "\<bar>?T - p\<bar> \<le> p / 2 ^ 53" using err by linarith
    then show ?thesis using fin T0 by auto
  qed
qed

lemma rd_rel_err:
  assumes "\<bar>p\<bar> \<le> max_double"
  shows "\<exists>y. round_double p = Fin y \<and>
    (\<bar>y - p\<bar> \<le> \<bar>p\<bar> / 2 ^ 53 \<or> (\<bar>p\<bar> < 1 / 2 \<and> \<bar>y\<bar> < 1 / 2))"
proof -
  consider "0 < p" | "p = 0" | "p < 0" by linarith
  then show ?thesis
  proof cases
    case 1
    then have "p \<le> max_double" using assms by simp
    from rd_rel_err_pos[OF 1 this] obtain y where
      "round_double p = Fin y" "0 \<le> y" "\<bar>y - p\<bar> \<le> p / 2 ^ 53 \<or> (p < 1 / 2 \<and> y < 1 / 2)"
      by blast
    then show ?thesis using 1 by (intro exI[of _ y]) auto
  next
    case 2
    then show ?thesis by simp
  next
    case 3
    then have "0 < - p" "- p \<le> max_double" using assms by simp_all
    from rd_rel_err_pos[OF this] obtain y where
      y: "round_double (- p) = Fin y" "0 \<le> y"
        "\<bar>y - (- p)\<bar> \<le> (- p) / 2 ^ 53 \<or> (- p < 1 / 2 \<and> y < 1 / 2)"
      by blast
    have "round_double p = jneg (round_double (- p))"
      using rd_minus[of "- p"] by simp
    then have "round_double p = Fin (- y)" using y(1) by simp
    moreover have "\<bar>- y - p\<bar> = \<bar>y - (- p)\<bar>" by simp
    ultimately show ?thesis using y(2,3) 3 by (intro exI[of _ "- y"]) auto
  qed
qed

lemma math_round_err: "\<bar>of_int \<lfloor>y + 1 / 2\<rfloor> - y\<bar> \<le> 1 / (2::rat)"
proof -
  have "of_int \<lfloor>y + 1 / 2\<rfloor> \<le> y + 1 / 2" by (rule of_int_floor_le)
  moreover have "y + 1 / 2 < of_int \<lfloor>y + 1 / 2\<rfloor> + 1" by linarith
  ultimately show ?thesis by linarith
qed

text \<open>
  What \<open>Math.round(x * 100) / 100\<close> returns when \<open>100 * x\<close> does not exceed the largest
  number: the number nearest to a multiple of 0.01 that is no further from \<open>x\<close> than
  0.005 and the rounding error of the product.
\<close>

lemma redondear2_two_decimals:
  assumes "\<bar>q\<bar> * 100 \<le> max_double"
  shows "\<exists>k. redondear2 (Fin q) = round_double (of_int k / 100)
           \<and> \<bar>of_int k / 100 - q\<bar> \<le> 1 / 200 + \<bar>q\<bar> / 2 ^ 53"
proof -
  have "\<bar>q * 100\<bar> \<le> max_double" using assms by (simp add: abs_mult)
  from rd_rel_err[OF this] obtain y where
    y: "round_double (q * 100) = Fin y"
       "\<bar>y - q * 100\<bar> \<le> \<bar>q * 100\<bar> / 2 ^ 53 \<or> (\<bar>q * 100\<bar> < 1 / 2 \<and> \<bar>y\<bar> < 1 / 2)"
    by blast
  define k where "k = \<lfloor>y + 1 / 2\<rfloor>"
  have r: "redondear2 (Fin q) = round_double (of_int k / 100)"
    by (simp add: redondear2_def y(1) k_def)
  have ky: "\<bar>of_int k - y\<bar> \<le> 1 / 2" unfolding k_def by (rule math_round_err)
  have q0: "0 \<le> \<bar>q\<bar> / 2 ^ 53" by simp
  from y(2) have "\<bar>of_int k / 100 - q\<bar> \<le> 1 / 200 + \<bar>q\<bar> / 2 ^ 53"
  proof
    assume e: "\<bar>y - q * 100\<bar> \<le> \<bar>q * 100\<bar> / 2 ^ 53"
    define A where "A = \<bar>of_int k - q * 100\<bar>"
    define B where "B = \<bar>q\<bar> / 2 ^ 53"
    have b: "\<bar>q * 100\<bar> / 2 ^ 53 = B * 100" by (simp add: abs_mult B_def)
    have "A \<le> 1 / 2 + B * 100" using ky e unfolding b A_def by linarith
    then have "A / 100 \<le> 1 / 200 + B" by simp
    moreover have "\<bar>of_int k / 100 - q\<bar> = A / 100"
    proof -
      have "of_int k / 100 - q = (of_int k - q * 100) / 100" by (simp add: field_simps)
      then show ?thesis by (simp only: abs_divide abs_numeral A_def)
    qed
    ultimately show ?thesis by (simp add: B_def)
  next
    assume s: "\<bar>q * 100\<bar> < 1 / 2 \<and> \<bar>y\<bar> < 1 / 2"
    then have "0 \<le> y + 1 / 2" "y + 1 / 2 < 1" by linarith+
    then have "k = 0" unfolding k_def by (simp add: floor_eq_iff)
    moreover have "\<bar>q\<bar> < 1 / 200" using s by (simp add: abs_mult)
    ultimately show ?thesis using q0 by simp
  qed
  then show ?thesis using r by blast
qed

lemma redondear2_exact:
  assumes "is_double (q * 100)"
  shows "redondear2 (Fin q) = roundedTo2 (Fin q)"
  using assms by (simp add: redondear2_def is_double_def roundHalfUp2_def)

lemma redondear2_nonfinite [simp]:
  "redondear2 NaN = NaN" "redondear2 PInf = PInf" "redondear2 NInf = NInf"
  by (simp_all add: redondear2_def)

lemma roundHalfUp2_cert:
  "of_int n \<le> q * 100 + 1 / 2 \<Longrightarrow> q * 100 + 1 / 2 < of_int n + 1 \<Longrightarrow> roundHalfUp2 q = of_int n / 100"
  by (simp add: roundHalfUp2_def floor_unique)

lemma rd_overflow:
  assumes "huge \<le> q"
  shows "round_double q = PInf"
proof -
  have q0: "0 < q" using assms huge_pos by linarith
  have "jle (Fin max_double) (round_double q)"
  proof (rule rd_lower[OF max_double_dyadic])
    have "max_double < 2 ^ 53 * 2 powi 971" by (simp add: max_double_def)
    also have "\<dots> = 2 powi (971 + 53)" by (simp only: p2_add) simp
    finally show "max_double \<le> q" using assms by (simp add: huge_def)
  qed
  show ?thesis
  proof (rule ccontr)
    assume "round_double q \<noteq> PInf"
    then have f: "of_int (rne (q / 2 powi ulp_exp q)) * 2 powi ulp_exp q < huge"
      using rd_pos[OF q0] by (simp split: if_splits)
    from fin_lt_huge(1)[OF q0 f] show False using assms by simp
  qed
qed

lemma weights_eq:
  "weightedSum evaluations = fst (sumas (filter tieneNota evaluations))"
  "weightTotal evaluations = snd (sumas (filter tieneNota evaluations))"
  by (simp_all add: weightedSum_def weightTotal_def sumas_eq)

lemma calcular_cases:
  "calcularNotaFinal (Some evaluations) =
     (if filter tieneNota evaluations = [] \<or> jeq (weightTotal evaluations) (Fin 0) then Null
      else Num (redondear2
             (jdiv (jmul (weightedSum evaluations) (Fin 100)) (weightTotal evaluations))))"
  by (cases "evaluations = []")
    (auto simp: calcularNotaFinal_def Let_def weights_eq redondear2_def)

text \<open>
  Claim C1, as amended. \<open>_calcularNotaFinal\<close> returns absent for an empty list (or no
  list), when no evaluation has a score, and when the weights of the evaluations that have
  a score sum to 0. Otherwise it returns \<open>Math.round(x * 100) / 100\<close>, computed in
  binary64, of the value \<open>x = (weightedSum * 100) / weightTotal\<close>. When \<open>100 * \<bar>x\<bar>\<close>
  does not exceed the largest number, the result is the number nearest to a multiple of
  0.01 whose distance from \<open>x\<close> is at most \<open>0.005 + \<bar>x\<bar> / 2 ^ 53\<close>. When the product
  \<open>100 * x\<close> is computed without rounding error, or \<open>x\<close> is not finite, the result is \<open>x\<close>
  rounded to 2 decimal places as the specification words it. An evaluation without a
  score is skipped: it can be removed from the list without changing the result, and a
  missing score next to a score of 80 gives 80, not 40. The scores 85, 86 and 86 at equal
  weights give 85.67.
\<close>

theorem final_grade_formula:
  "calcularNotaFinal None = Null
   \<and> calcularNotaFinal (Some []) = Null
   \<and> (filter tieneNota evaluations = [] \<longrightarrow> calcularNotaFinal (Some evaluations) = Null)
   \<and> (jeq (weightTotal evaluations) (Fin 0) \<longrightarrow> calcularNotaFinal (Some evaluations) = Null)
   \<and> (filter tieneNota evaluations \<noteq> [] \<and> \<not> jeq (weightTotal evaluations) (Fin 0) \<longrightarrow>
        calcularNotaFinal (Some evaluations) =
          Num (jdiv (math_round (jmul
                 (jdiv (jmul (weightedSum evaluations) (Fin 100)) (weightTotal evaluations))
                 (Fin 100))) (Fin 100)))
   \<and> (filter tieneNota evaluations \<noteq> [] \<and> \<not> jeq (weightTotal evaluations) (Fin 0)
        \<and> jdiv (jmul (weightedSum evaluations) (Fin 100)) (weightTotal evaluations) = Fin q
        \<and> \<bar>q\<bar> * 100 \<le> max_double \<longrightarrow>
        (\<exists>k. calcularNotaFinal (Some evaluations) = Num (round_double (of_int k / 100))
           \<and> \<bar>of_int k / 100 - q\<bar> \<le> 1 / 200 + \<bar>q\<bar> / 2 ^ 53))
   \<and> ((\<forall>x. jdiv (jmul (weightedSum evaluations) (Fin 100)) (weightTotal evaluations) = Fin x
            \<longrightarrow> is_double (x * 100)) \<longrightarrow>
        calcularNotaFinal (Some evaluations) = computeFinalGrade evaluations)
   \<and> calcularNotaFinal (Some evaluations) = calcularNotaFinal (Some (filter tieneNota evaluations))
   \<and> calcularNotaFinal (Some [\<lparr>nota = JNull, ponderacion = JNum (Fin 50)\<rparr>,
                                \<lparr>nota = JNum (Fin 80), ponderacion = JNum (Fin 50)\<rparr>]) = Num (Fin 80)
   \<and> calcularNotaFinal (Some [\<lparr>nota = JNum (Fin 85), ponderacion = JNum (Fin 1)\<rparr>,
                                \<lparr>nota = JNum (Fin 86), ponderacion = JNum (Fin 1)\<rparr>,
                                \<lparr>nota = JNum (Fin 86), ponderacion = JNum (Fin 1)\<rparr>]) =
        Num (round_double (8567 / 100))"
proof -
  let ?x = "jdiv (jmul (weightedSum evaluations) (Fin 100)) (weightTotal evaluations)"
  note c = calcular_cases[of evaluations]
  have 1: "calcularNotaFinal None = Null" "calcularNotaFinal (Some []) = Null"
    by (simp_all add: calcularNotaFinal_def)
  have 3: "filter tieneNota evaluations = [] \<longrightarrow> calcularNotaFinal (Some evaluations) = Null"
    using c by simp
  have 4: "jeq (weightTotal evaluations) (Fin 0) \<longrightarrow> calcularNotaFinal (Some evaluations) = Null"
    using c by simp
  have 5: "filter tieneNota evaluations \<noteq> [] \<and> \<not> jeq (weightTotal evaluations) (Fin 0) \<longrightarrow>
        calcularNotaFinal (Some evaluations) =
          Num (jdiv (math_round (jmul ?x (Fin 100))) (Fin 100))"
    using c by (simp add: redondear2_def)
  have 6: "filter tieneNota evaluations \<noteq> [] \<and> \<not> jeq (weightTotal evaluations) (Fin 0)
        \<and> ?x = Fin q \<and> \<bar>q\<bar> * 100 \<le> max_double \<longrightarrow>
        (\<exists>k. calcularNotaFinal (Some evaluations) = Num (round_double (of_int k / 100))
           \<and> \<bar>of_int k / 100 - q\<bar> \<le> 1 / 200 + \<bar>q\<bar> / 2 ^ 53)"
  proof (intro impI, elim conjE)
    assume a: "filter tieneNota evaluations \<noteq> []" "\<not> jeq (weightTotal evaluations) (Fin 0)"
      "?x = Fin q" "\<bar>q\<bar> * 100 \<le> max_double"
    from redondear2_two_decimals[OF a(4)] obtain k where
      "redondear2 (Fin q) = round_double (of_int k / 100)"
      "\<bar>of_int k / 100 - q\<bar> \<le> 1 / 200 + \<bar>q\<bar> / 2 ^ 53" by blast
    then show "\<exists>k. calcularNotaFinal (Some evaluations) = Num (round_double (of_int k / 100))
           \<and> \<bar>of_int k / 100 - q\<bar> \<le> 1 / 200 + \<bar>q\<bar> / 2 ^ 53"
      using c a(1-3) by (intro exI[of _ k]) simp
  qed
  have 7: "(\<forall>x. ?x = Fin x \<longrightarrow> is_double (x * 100)) \<longrightarrow>
        calcularNotaFinal (Some evaluations) = computeFinalGrade evaluations"
  proof
    assume a: "\<forall>x. ?x = Fin x \<longrightarrow> is_double (x * 100)"
    have "redondear2 ?x = roundedTo2 ?x"
    proof (cases ?x)
      case (Fin x)
      then show ?thesis using a redondear2_exact[of x] by simp
    qed simp_all
    then show "calcularNotaFinal (Some evaluations) = computeFinalGrade evaluations"
      unfolding c computeFinalGrade_def by auto
  qed
  have 8: "calcularNotaFinal (Some evaluations) = calcularNotaFinal (Some (filter tieneNota evaluations))"
    by (cases "filter tieneNota evaluations = []") (auto simp: calcularNotaFinal_def Let_def)
  have 9: "calcularNotaFinal (Some [\<lparr>nota = JNull, ponderacion = JNum (Fin 50)\<rparr>,
                                \<lparr>nota = JNum (Fin 80), ponderacion = JNum (Fin 50)\<rparr>]) = Num (Fin 80)"
    using math_round_cert[of 8000 8000]
    by (simp add: calcularNotaFinal_def sumas_def acumular_def tieneNota_def jeq_def)
  have 10: "calcularNotaFinal (Some [\<lparr>nota = JNum (Fin 85), ponderacion = JNum (Fin 1)\<rparr>,
                                \<lparr>nota = JNum (Fin 86), ponderacion = JNum (Fin 1)\<rparr>,
                                \<lparr>nota = JNum (Fin 86), ponderacion = JNum (Fin 1)\<rparr>]) =
        Num (round_double (8567 / 100))"
    using rd_near[of "-53" "17 / 20" 7656119366529843]
      rd_near[of "-53" "7656119366529843 / 9007199254740992" 7656119366529843]
      rd_near[of "-53" "43 / 50" 7746191359077253]
      rd_near[of "-52" "1925288840700887 / 1125899906842624" 7701155362803548]
      rd_near[of "-51" "23148502084684349 / 9007199254740992" 5787125521171087]
      rd_near[of "-44" "144678138029277175 / 562949953421312" 4521191813414912]
      rd_near[of "-46" "257 / 3" 6028255751219883]
      rd_near[of "-39" "150706393780497075 / 17592186044416" 4709574805640534]
      rd_near[of "-46" "8567 / 100" 6028490313700475]
      math_round_cert[of 8567 "2354787402820267 / 274877906944"]
    by (simp add: calcularNotaFinal_def sumas_def acumular_def tieneNota_def jeq_def)
  show ?thesis
    by (intro conjI) (rule 1(1), rule 1(2), rule 3, rule 4, rule 5, rule 6, rule 7, rule 8,
        rule 9, rule 10)
qed

theorem final_grade_formula_witness:
  "filter tieneNota [\<lparr>nota = JNum (Fin 90), ponderacion = JNum (Fin 50)\<rparr>,
                      \<lparr>nota = JUndefined, ponderacion = JNum (Fin 20)\<rparr>,
                      \<lparr>nota = JNum (Fin 80), ponderacion = JNum (Fin 50)\<rparr>] \<noteq> []
   \<and> \<not> jeq (weightTotal [\<lparr>nota = JNum (Fin 90), ponderacion = JNum (Fin 50)\<rparr>,
                      \<lparr>nota = JUndefined, ponderacion = JNum (Fin 20)\<rparr>,
                      \<lparr>nota = JNum (Fin 80), ponderacion = JNum (Fin 50)\<rparr>]) (Fin 0)
   \<and> jdiv (jmul (weightedSum [\<lparr>nota = JNum (Fin 90), ponderacion = JNum (Fin 50)\<rparr>,
                      \<lparr>nota = JUndefined, ponderacion = JNum (Fin 20)\<rparr>,
                      \<lparr>nota = JNum (Fin 80), ponderacion = JNum (Fin 50)\<rparr>]) (Fin 100))
        (weightTotal [\<lparr>nota = JNum (Fin 90), ponderacion = JNum (Fin 50)\<rparr>,
                      \<lparr>nota = JUndefined, ponderacion = JNum (Fin 20)\<rparr>,
                      \<lparr>nota = JNum (Fin 80), ponderacion = JNum (Fin 50)\<rparr>]) = Fin 85
   \<and> \<bar>85 :: rat\<bar> * 100 \<le> max_double
   \<and> is_double (85 * 100)
   \<and> calcularNotaFinal (Some [\<lparr>nota = JNum (Fin 90), ponderacion = JNum (Fin 50)\<rparr>,
                      \<lparr>nota = JUndefined, ponderacion = JNum (Fin 20)\<rparr>,
                      \<lparr>nota = JNum (Fin 80), ponderacion = JNum (Fin 50)\<rparr>]) = Num (Fin 85)
   \<and> computeFinalGrade [\<lparr>nota = JNum (Fin 90), ponderacion = JNum (Fin 50)\<rparr>,
                      \<lparr>nota = JUndefined, ponderacion = JNum (Fin 20)\<rparr>,
                      \<lparr>nota = JNum (Fin 80), ponderacion = JNum (Fin 50)\<rparr>] = Num (Fin 85)"
  using final_grade_formula[of "[\<lparr>nota = JNum (Fin 90), ponderacion = JNum (Fin 50)\<rparr>,
                      \<lparr>nota = JUndefined, ponderacion = JNum (Fin 20)\<rparr>,
                      \<lparr>nota = JNum (Fin 80), ponderacion = JNum (Fin 50)\<rparr>]" 85]
    math_round_cert[of 8500 8500] small_max_double[of 8500]
  by (auto simp add: weightedSum_def weightTotal_def fsum_def tieneNota_def jeq_def is_double_def)

lemma roundHalfUp2_int: "q * 100 = of_int n \<Longrightarrow> roundHalfUp2 q = q"
proof -
  assume a: "q * 100 = of_int n"
  have "\<lfloor>(of_int n :: rat) + 1 / 2\<rfloor> = n" by (rule floor_unique) simp_all
  then have "roundHalfUp2 q = of_int n / 100" by (simp add: roundHalfUp2_def a)
  also have "\<dots> = q" using a by simp
  finally show ?thesis .
qed

lemma compute_cases:
  "computeFinalGrade evaluations =
     (if filter tieneNota evaluations = [] \<or> jeq (weightTotal evaluations) (Fin 0) then Null
      else Num (roundedTo2
             (jdiv (jmul (weightedSum evaluations) (Fin 100)) (weightTotal evaluations))))"
  by (cases "evaluations = []") (auto simp: computeFinalGrade_def)

text \<open>
  A finite grade whose product with 100 exceeds the largest number: the result of the
  rounding is \<open>Infinity\<close>.
\<close>

lemma redondear2_overflow:
  assumes "huge \<le> s * 100"
  shows "redondear2 (Fin s) = PInf"
  using rd_overflow[OF assms] by (simp add: redondear2_def)

lemma overflow_single:
  assumes "dyadic53 s" "dyadic53 (s / 100)" "huge \<le> s * 100" "s * 100 = of_int n"
  shows "jdiv (jmul (weightedSum [\<lparr>nota = JNum (Fin s), ponderacion = JNum (Fin 1)\<rparr>]) (Fin 100))
              (weightTotal [\<lparr>nota = JNum (Fin s), ponderacion = JNum (Fin 1)\<rparr>]) = Fin s"
    and "computeFinalGrade [\<lparr>nota = JNum (Fin s), ponderacion = JNum (Fin 1)\<rparr>] = Num (Fin s)"
    and "calcularNotaFinal (Some [\<lparr>nota = JNum (Fin s), ponderacion = JNum (Fin 1)\<rparr>]) = Num PInf"
proof -
  let ?E = "[\<lparr>nota = JNum (Fin s), ponderacion = JNum (Fin 1)\<rparr>]"
  have w: "weightedSum ?E = Fin (s / 100)" "weightTotal ?E = Fin 1"
    using rd_exact[OF assms(1)] rd_exact[OF assms(2)]
    by (simp_all add: weightedSum_def weightTotal_def fsum_def tieneNota_def)
  show x: "jdiv (jmul (weightedSum ?E) (Fin 100)) (weightTotal ?E) = Fin s"
    using rd_exact[OF assms(1)] by (simp add: w)
  show "computeFinalGrade ?E = Num (Fin s)"
    using rd_exact[OF assms(1)] roundHalfUp2_int[OF assms(4)]
    by (simp only: compute_cases x) (simp add: tieneNota_def w(2) jeq_def)
  show "calcularNotaFinal (Some ?E) = Num PInf"
    using redondear2_overflow[OF assms(3)]
    by (simp only: calcular_cases x) (simp add: tieneNota_def w(2) jeq_def)
qed

lemma big_grade:
  "dyadic53 (25 * 2 powi 1013)" "dyadic53 (25 * 2 powi 1013 / 100)"
  "huge \<le> 25 * 2 powi 1013 * 100" "25 * 2 powi 1013 * 100 = (of_int (2500 * 2 ^ 1013) :: rat)"
proof -
  have a: "(2::rat) powi 1013 = 4 * 2 powi 1011" using p2_add[of 1011 2] by simp
  have b: "huge = 2048 * 2 powi 1013" using p2_add[of 1013 11] by (simp add: huge_def)
  have c: "(0::rat) < 2 powi 1013" by simp
  show "dyadic53 (25 * 2 powi 1013)"
  proof (rule dyadic53I[of _ 25 1013])
    show "\<bar>25 * 2 powi 1013 :: rat\<bar> < huge" unfolding b using c by simp
  qed simp_all
  have "25 * 2 powi 1013 / 100 = (of_int 1 :: rat) * 2 powi 1011" unfolding a by simp
  moreover have "\<bar>(of_int 1 :: rat) * 2 powi 1011\<bar> < huge"
    unfolding b a using p2_pos[of 1011] by simp
  ultimately show "dyadic53 (25 * 2 powi 1013 / 100)"
    by (intro dyadic53I[of _ 1 1011]) simp_all
  show "huge \<le> 25 * 2 powi 1013 * 100" unfolding b using c by simp
  show "25 * 2 powi 1013 * 100 = (of_int (2500 * 2 ^ 1013) :: rat)" by simp
qed

lemma crossing_6100:
  "round_double (60995 / 1000) = Fin (8584283102233231 / 2 ^ 47)"
  "redondear2 (Fin (8584283102233231 / 2 ^ 47)) = Fin 61"
  "roundHalfUp2 (8584283102233231 / 2 ^ 47) = 6099 / 100"
  "roundedTo2 (Fin (8584283102233231 / 2 ^ 47)) = round_double (6099 / 100)"
proof -
  show "round_double (60995 / 1000) = Fin (8584283102233231 / 2 ^ 47)"
    using rd_near[of "-47" "12199 / 200" 8584283102233231] by simp
  show "redondear2 (Fin (8584283102233231 / 2 ^ 47)) = Fin 61"
    using rd_near[of "-40" "214607077555830775 / 35184372088832" 6706471173619712]
      math_round_cert[of 6100 "12199 / 2"]
    by (simp add: redondear2_def)
  show h: "roundHalfUp2 (8584283102233231 / 2 ^ 47) = 6099 / 100"
    using roundHalfUp2_cert[of 6099 "8584283102233231 / 2 ^ 47"] by simp
  show "roundedTo2 (Fin (8584283102233231 / 2 ^ 47)) = round_double (6099 / 100)"
    by (simp only: roundedTo2.simps h)
qed

text \<open>
  Where the result is not the value rounded to 2 decimal places. A single evaluation of
  weight 1 with the score \<open>25 * 2 ^ 1013\<close> has this finite value before rounding, and the
  result is \<open>Infinity\<close>. A single evaluation of weight 100 whose score is the number
  nearest to 60.995 has that number as the value before rounding; it lies below 60.995,
  so that 60.99 is the nearest multiple of 0.01, and the result is 61.
\<close>

theorem final_grade_formula_counterexample:
  "round_double (60995 / 1000) = Fin (8584283102233231 / 2 ^ 47)
   \<and> (8584283102233231 / 2 ^ 47 :: rat) < 60995 / 1000
   \<and> jdiv (jmul (weightedSum [\<lparr>nota = JNum (round_double (60995 / 1000)),
                                ponderacion = JNum (Fin 100)\<rparr>]) (Fin 100))
           (weightTotal [\<lparr>nota = JNum (round_double (60995 / 1000)),
                          ponderacion = JNum (Fin 100)\<rparr>]) =
       Fin (8584283102233231 / 2 ^ 47)
   \<and> roundHalfUp2 (8584283102233231 / 2 ^ 47) = 6099 / 100
   \<and> computeFinalGrade [\<lparr>nota = JNum (round_double (60995 / 1000)),
                          ponderacion = JNum (Fin 100)\<rparr>] = Num (round_double (6099 / 100))
   \<and> calcularNotaFinal (Some [\<lparr>nota = JNum (round_double (60995 / 1000)),
                                ponderacion = JNum (Fin 100)\<rparr>]) = Num (Fin 61)
   \<and> round_double (6099 / 100) \<noteq> Fin 61
   \<and> jdiv (jmul (weightedSum [\<lparr>nota = JNum (Fin (25 * 2 powi 1013)),
                                ponderacion = JNum (Fin 1)\<rparr>]) (Fin 100))
           (weightTotal [\<lparr>nota = JNum (Fin (25 * 2 powi 1013)), ponderacion = JNum (Fin 1)\<rparr>]) =
       Fin (25 * 2 powi 1013)
   \<and> computeFinalGrade [\<lparr>nota = JNum (Fin (25 * 2 powi 1013)), ponderacion = JNum (Fin 1)\<rparr>] =
       Num (Fin (25 * 2 powi 1013))
   \<and> calcularNotaFinal (Some [\<lparr>nota = JNum (Fin (25 * 2 powi 1013)),
                                ponderacion = JNum (Fin 1)\<rparr>]) = Num PInf"
proof -
  let ?E = "[\<lparr>nota = JNum (round_double (60995 / 1000)), ponderacion = JNum (Fin 100)\<rparr>]"
  note certs =
    rd_near[of "-47" "12199 / 200" 8584283102233231]
    rd_near[of "-40" "214607077555830775 / 35184372088832" 6706471173619712]
    rd_near[of "-47" "8584283102233231 / 140737488355328" 8584283102233231]
    rd_near[of "-47" "6099 / 100" 8583579414791455]
  have 1: "round_double (60995 / 1000) = Fin (8584283102233231 / 2 ^ 47)"
    by (rule crossing_6100(1))
  have 2: "(8584283102233231 / 2 ^ 47 :: rat) < 60995 / 1000" by simp
  have 3: "jdiv (jmul (weightedSum ?E) (Fin 100)) (weightTotal ?E) = Fin (8584283102233231 / 2 ^ 47)"
    using certs by (simp add: weightedSum_def weightTotal_def fsum_def tieneNota_def)
  have w: "weightTotal ?E = Fin 100"
    by (simp add: weightTotal_def fsum_def tieneNota_def crossing_6100(1))
  have 5: "computeFinalGrade ?E = Num (round_double (6099 / 100))"
    using w crossing_6100(1,4) unfolding compute_cases 3 by (simp add: tieneNota_def jeq_def)
  have 6: "calcularNotaFinal (Some ?E) = Num (Fin 61)"
    using w crossing_6100(1,2) unfolding calcular_cases 3 by (simp add: tieneNota_def jeq_def)
  have 7: "round_double (6099 / 100) \<noteq> Fin 61"
    using certs by simp
  show ?thesis
    by (intro conjI)
      (rule 1, rule 2, rule 3, rule crossing_6100(3), rule 5, rule 6, rule 7,
       rule overflow_single(1)[OF big_grade], rule overflow_single(2)[OF big_grade],
       rule overflow_single(3)[OF big_grade])
qed

section \<open>The average of a semester\<close>







end
